theory Spec2Isabelle
  imports Complex_Main "HOL-Library.Word" "HOL-Library.Log_Nat"
begin

unbundle bit_operations_syntax

section \<open>A single tectonic plate (plate.cpp)\<close>

text \<open>
  The theory embeds the operations of \<^verbatim>\<open>src/plate.cpp\<close>: the constructor, \<^verbatim>\<open>setCrust\<close>
  with its reframe, \<^verbatim>\<open>addCrustByCollision\<close>, \<^verbatim>\<open>addCrustBySubduction\<close>,
  \<^verbatim>\<open>aggregateCrust\<close> and \<^verbatim>\<open>findRiverSources\<close>.

  Conventions.
  \<^item> \<^verbatim>\<open>uint32_t\<close> coordinates, sizes, indices and continent ids are \<open>nat\<close>; where the
    source relies on 32-bit wrap-around and on bit masks (the edge distances of the reframe,
    the age masks) the values are \<open>32 word\<close>.
  \<^item> \<^verbatim>\<open>float\<close> crust heights, amounts of crust and masses are values of the type
    \<open>float32\<close> of IEEE 754 single-precision numbers: every addition, subtraction,
    multiplication and division on them is rounded to the nearest such number, ties to
    even, as the hardware does it. Overflow to an infinity, NaN and the sign of zero are
    not modelled.
  \<^item> Positions and velocities (the corner of the rectangle, the displacement of
    \<^verbatim>\<open>addCrustBySubduction\<close>) are exact reals; their rounding only moves the cell a
    statement below takes as given.
  \<^item> A C++ exception, a failed \<^verbatim>\<open>assert\<close> and a read through a null pointer are values of
    \<open>error\<close>; an operation returns \<open>error + result\<close>, with \<open>Inl\<close> the failure.
  \<^item> Methods mutate the plate; here they take the plate and return the new one.
  \<^item> The random source is a collaborator: an operation that draws from it takes the drawn
    values as arguments.
\<close>

type_synonym u32 = "32 word"

datatype error = InvalidArgument | AssertionFailure | NullDereference

subsection \<open>Single-precision floating point\<close>

text \<open>
  The arithmetic of a C++ \<^verbatim>\<open>float\<close> on the platforms the code is built for (IEEE 754
  binary32, round to nearest, ties to even, every operation rounded on its own).

  \<open>rne\<close> rounds a real to the nearest integer, a tie to the even one. \<open>expo x\<close> is the
  binary exponent of a positive \<open>x\<close>, the \<open>e\<close> with \<open>2^e \<le> x < 2^(e+1)\<close>. A number of
  exponent \<open>e\<close> is rounded to a multiple of \<open>2^(e - 23)\<close>, which leaves 24 significant bits;
  below \<open>2^-126\<close> the spacing stays \<open>2^-149\<close> (subnormal numbers).
\<close>

definition rne :: "real \<Rightarrow> int" where
  "rne x =
    (let f = \<lfloor>x\<rfloor>; d = x - of_int f
     in if d < 1 / 2 then f else if 1 / 2 < d then f + 1 else if even f then f else f + 1)"

definition expo :: "real \<Rightarrow> int" where
  "expo x = (if 1 \<le> x then bitlen \<lfloor>x\<rfloor> - 1 else - bitlen (\<lceil>1 / x\<rceil> - 1))"

definition quantum :: "real \<Rightarrow> real" where
  "quantum x = 2 powi (max (expo \<bar>x\<bar>) (- 126) - 23)"

definition f32_round :: "real \<Rightarrow> real" where
  "f32_round x = of_int (rne (x / quantum x)) * quantum x"

text \<open>The single-precision numbers are the values of \<open>f32_round\<close>; \<open>fv\<close> is the real
  value of one, \<open>fl\<close> the number nearest to a real.\<close>

typedef float32 = "range f32_round"
  morphisms fv Abs_float32
  by blast

definition fl :: "real \<Rightarrow> float32" where
  "fl x = Abs_float32 (f32_round x)"

text \<open>The operators of C++ on \<^verbatim>\<open>float\<close>: the exact result, rounded. Comparisons are
  exact.\<close>

instantiation float32 :: "{zero, one, plus, minus, uminus, times, inverse, linorder}"
begin

definition zero_float32 :: float32 where
  "zero_float32 = fl 0"

definition one_float32 :: float32 where
  "one_float32 = fl 1"

definition plus_float32 :: "float32 \<Rightarrow> float32 \<Rightarrow> float32" where
  "plus_float32 a b = fl (fv a + fv b)"

definition minus_float32 :: "float32 \<Rightarrow> float32 \<Rightarrow> float32" where
  "minus_float32 a b = fl (fv a - fv b)"

definition uminus_float32 :: "float32 \<Rightarrow> float32" where
  "uminus_float32 a = fl (- fv a)"

definition times_float32 :: "float32 \<Rightarrow> float32 \<Rightarrow> float32" where
  "times_float32 a b = fl (fv a * fv b)"

definition divide_float32 :: "float32 \<Rightarrow> float32 \<Rightarrow> float32" where
  "divide_float32 a b = fl (fv a / fv b)"

definition inverse_float32 :: "float32 \<Rightarrow> float32" where
  "inverse_float32 a = fl (1 / fv a)"

definition less_eq_float32 :: "float32 \<Rightarrow> float32 \<Rightarrow> bool" where
  "less_eq_float32 a b \<longleftrightarrow> fv a \<le> fv b"

definition less_float32 :: "float32 \<Rightarrow> float32 \<Rightarrow> bool" where
  "less_float32 a b \<longleftrightarrow> fv a < fv b"

instance
  by standard (auto simp: less_eq_float32_def less_float32_def fv_inject)

end

subsection \<open>Idioms of the source\<close>

text \<open>\<^verbatim>\<open>-(cond)\<close> as an unsigned 32-bit value: all bits set when the condition holds.\<close>

definition neg_bool :: "bool \<Rightarrow> u32" where
  "neg_bool c = (if c then - 1 else 0)"

text \<open>
  The conversion of a floating-point value to \<^verbatim>\<open>uint32_t\<close> truncates towards zero; it is
  undefined in C++ below \<open>-1\<close> and from \<open>2^32\<close> on, where this model gives 0 and wraps.
  \<open>f2n\<close> is the integer part of a position, \<open>f2u\<close> the conversion of a \<^verbatim>\<open>float\<close>. The
  conversion of a \<^verbatim>\<open>uint32_t\<close> to \<^verbatim>\<open>float\<close> rounds: from \<open>2^24\<close> on not every integer is
  a single-precision number.
\<close>

definition f2n :: "real \<Rightarrow> nat" where
  "f2n r = nat \<lfloor>r\<rfloor>"

definition f2u :: "float32 \<Rightarrow> u32" where
  "f2u r = of_nat (f2n (fv r))"

definition u2f :: "u32 \<Rightarrow> float32" where
  "u2f a = fl (real (unat a))"

text \<open>
  \<^verbatim>\<open>memcpy(&dst[dest_i], &src[src_i], n * sizeof(T))\<close>, element by element.
\<close>

definition memcpy :: "'a list \<Rightarrow> nat \<Rightarrow> 'a list \<Rightarrow> nat \<Rightarrow> nat \<Rightarrow> 'a list" where
  "memcpy dst dest_i src src_i n = fold (\<lambda>k d. d[dest_i + k := src ! (src_i + k)]) [0..<n] dst"

subsection \<open>World dimension and plate rectangle\<close>

record world_dimension =
  wd_width :: nat
  wd_height :: nat

text \<open>Modelled from the spec: \<^verbatim>\<open>WorldDimension::normalize\<close> (section 3, all world
  coordinates are taken modulo the world's width and height); its code is not in the sources.\<close>

definition normalize :: "world_dimension \<Rightarrow> nat \<Rightarrow> nat \<Rightarrow> nat \<times> nat" where
  "normalize wd x y = (x mod wd_width wd, y mod wd_height wd)"

text \<open>
  Modelled from the spec: the class \<^verbatim>\<open>Bounds\<close> (section 3, Plate rectangle), whose code is
  not in the sources. The corner \<open>(b_x, b_y)\<close> is a floating-point world position whose
  integer part is used for indexing; \<open>b_width\<close> and \<open>b_height\<close> are the dimensions.
\<close>

record bounds =
  b_world :: world_dimension
  b_x :: real
  b_y :: real
  b_width :: nat
  b_height :: nat

text \<open>
  Modelled from the spec: the accessors of \<^verbatim>\<open>Bounds\<close> that \<^verbatim>\<open>setCrust\<close> reads: the integer
  part of the corner, the number of cells, and the right and bottom edges that the distances
  of section 4.2 step 1 are measured to. These two are the last column and the last row of
  the rectangle: a cell next to the plate is at distance 1 from the edge, so that the
  rectangle is extended for every cell outside it, as the contract of section 4.2 says.
\<close>

definition leftAsUint :: "bounds \<Rightarrow> nat" where
  "leftAsUint b = f2n (b_x b)"

definition topAsUint :: "bounds \<Rightarrow> nat" where
  "topAsUint b = f2n (b_y b)"

definition rightAsUintNonInclusive :: "bounds \<Rightarrow> nat" where
  "rightAsUintNonInclusive b = leftAsUint b + b_width b - 1"

definition bottomAsUintNonInclusive :: "bounds \<Rightarrow> nat" where
  "bottomAsUintNonInclusive b = topAsUint b + b_height b - 1"

definition area :: "bounds \<Rightarrow> nat" where
  "area b = b_width b * b_height b"


text \<open>
  Modelled from the spec: \<^verbatim>\<open>getMapIndex(&wx, &wy)\<close> translates world coordinates to local
  ones, taking the toroidal wrap into account, and yields \<^verbatim>\<open>BAD_INDEX\<close> (here \<open>None\<close>)
  when the cell lies outside the rectangle. On success the two coordinates are overwritten
  with the local ones, which the model returns beside the index.
\<close>

definition getMapIndex :: "bounds \<Rightarrow> nat \<Rightarrow> nat \<Rightarrow> (nat \<times> nat \<times> nat) option" where
  "getMapIndex b px py =
    (let W = wd_width (b_world b); H = wd_height (b_world b);
         x = px mod W; y = py mod H;
         ilft = leftAsUint b; itop = topAsUint b;
         irgt = ilft + b_width b; ibtm = itop + b_height b;
         xOk = ((ilft \<le> x \<and> x < irgt) \<or> (ilft \<le> x + W \<and> x + W < irgt));
         yOk = ((itop \<le> y \<and> y < ibtm) \<or> (itop \<le> y + H \<and> y + H < ibtm));
         lx = (if x < ilft then x + W else x) - ilft;
         ly = (if y < itop then y + H else y) - itop
     in if xOk \<and> yOk then Some (ly * b_width b + lx, lx, ly) else None)"

text \<open>Modelled from the spec: \<^verbatim>\<open>getValidMapIndex\<close> is \<^verbatim>\<open>getMapIndex\<close>, asserting that
  the cell is inside.\<close>

definition getValidMapIndex :: "bounds \<Rightarrow> nat \<Rightarrow> nat \<Rightarrow> error + (nat \<times> nat \<times> nat)" where
  "getValidMapIndex b px py =
    (case getMapIndex b px py of None \<Rightarrow> Inl AssertionFailure | Some r \<Rightarrow> Inr r)"

text \<open>Modelled from the spec: \<^verbatim>\<open>shift(dx, dy)\<close> moves the corner and keeps it in
  \<open>[0, W) \<times> [0, H)\<close> (section 4.8); \<^verbatim>\<open>grow(dw, dh)\<close> enlarges the dimensions.\<close>

definition wrap_coord :: "real \<Rightarrow> nat \<Rightarrow> real" where
  "wrap_coord v W = v - real W * of_int \<lfloor>v / real W\<rfloor>"

definition shift :: "bounds \<Rightarrow> real \<Rightarrow> real \<Rightarrow> bounds" where
  "shift b dx dy =
     b\<lparr>b_x := wrap_coord (b_x b + dx) (wd_width (b_world b)),
       b_y := wrap_coord (b_y b + dy) (wd_height (b_world b))\<rparr>"

definition grow :: "bounds \<Rightarrow> nat \<Rightarrow> nat \<Rightarrow> bounds" where
  "grow b dw dh = b\<lparr>b_width := b_width b + dw, b_height := b_height b + dh\<rparr>"


subsection \<open>Mass, segments, movement\<close>

text \<open>
  Modelled from the spec: the mass accumulator (section 3, Mass), reduced to its scalar sum,
  a \<^verbatim>\<open>float\<close>; the centroid is used by no operation embedded here. \<^verbatim>\<open>incMass\<close> adds a
  difference; \<^verbatim>\<open>MassBuilder(m, Dimension(w, h)).build()\<close> sums the \<open>w * h\<close> heights behind
  the pointer \<open>m\<close>, one after the other. A pointer is \<open>None\<close> when null; reading an element
  through a null pointer is the failure \<open>NullDereference\<close>.
\<close>

definition incMass :: "float32 \<Rightarrow> float32 \<Rightarrow> float32" where
  "incMass mass delta = mass + delta"

definition MassBuilder_build :: "float32 list option \<Rightarrow> nat \<Rightarrow> nat \<Rightarrow> error + float32" where
  "MassBuilder_build m w h =
    (if w * h = 0 then Inr 0
     else case m of None \<Rightarrow> Inl NullDereference
          | Some hs \<Rightarrow> Inr (foldl (\<lambda>mass k. mass + hs ! k) 0 [0..<w * h]))"

text \<open>
  Modelled from the spec: \<^verbatim>\<open>SegmentData\<close> and \<^verbatim>\<open>Segments\<close> (section 3, Segments
  bookkeeping), whose code is not in the sources. A segment is empty when its area is 0
  (section 4.5 step 2); marking it non-existent empties it, so that the test of step 2
  skips a continent that was aggregated before (section 4.5 steps 6 and 7).
\<close>

record segment_data =
  sd_left :: nat
  sd_top :: nat
  sd_right :: nat
  sd_bottom :: nat
  sd_area :: nat
  sd_collCount :: nat
  sd_exists :: bool

text \<open>Modelled from the spec: the methods of \<^verbatim>\<open>SegmentData\<close> that plate.cpp calls
  (sections 4.5 and 4.6): the test for an empty segment, marking it non-existent, counting
  one more cell, enlarging the box to contain a cell, and shifting the box.\<close>

definition isEmpty :: "segment_data \<Rightarrow> bool" where
  "isEmpty d = (sd_area d = 0)"

definition markNonExistent :: "segment_data \<Rightarrow> segment_data" where
  "markNonExistent d = d\<lparr>sd_area := 0, sd_exists := False\<rparr>"

definition incArea :: "segment_data \<Rightarrow> segment_data" where
  "incArea d = d\<lparr>sd_area := sd_area d + 1\<rparr>"

definition enlarge_to_contain :: "segment_data \<Rightarrow> nat \<Rightarrow> nat \<Rightarrow> segment_data" where
  "enlarge_to_contain d x y =
     d\<lparr>sd_left := min (sd_left d) x, sd_top := min (sd_top d) y,
       sd_right := max (sd_right d) x, sd_bottom := max (sd_bottom d) y\<rparr>"

definition sd_shift :: "nat \<Rightarrow> nat \<Rightarrow> segment_data \<Rightarrow> segment_data" where
  "sd_shift dx dy d =
     d\<lparr>sd_left := sd_left d + dx, sd_top := sd_top d + dy,
       sd_right := sd_right d + dx, sd_bottom := sd_bottom d + dy\<rparr>"

record segments =
  seg_ids :: "nat list"
  seg_data :: "segment_data list"

text \<open>The sentinel of an unassigned cell: every byte \<open>255\<close>.\<close>

definition unassigned :: nat where
  "unassigned = 4294967295"

text \<open>Modelled from the spec: the methods of \<^verbatim>\<open>Segments\<close> that plate.cpp calls
  (section 6, Collaborators): the index operator, where an index past the list of segments
  is a failed assertion, \<^verbatim>\<open>setId\<close>, \<^verbatim>\<open>reassign\<close> of the id buffer after a reframe, and
  \<^verbatim>\<open>shift\<close>, which shifts every segment's box.\<close>

definition segments_at :: "segments \<Rightarrow> nat \<Rightarrow> error + segment_data" where
  "segments_at s i =
     (if i < length (seg_data s) then Inr (seg_data s ! i) else Inl AssertionFailure)"

definition setId :: "segments \<Rightarrow> nat \<Rightarrow> nat \<Rightarrow> segments" where
  "setId s i c = s\<lparr>seg_ids := (seg_ids s)[i := c]\<rparr>"

definition reassign :: "segments \<Rightarrow> nat list \<Rightarrow> segments" where
  "reassign s tmps = s\<lparr>seg_ids := tmps\<rparr>"

definition segments_shift :: "segments \<Rightarrow> nat \<Rightarrow> nat \<Rightarrow> segments" where
  "segments_shift s dx dy = s\<lparr>seg_data := map (sd_shift dx dy) (seg_data s)\<rparr>"

text \<open>
  The movement of the plate is a collaborator whose code is not in the sources; the three
  methods \<^verbatim>\<open>addCrustBySubduction\<close> calls are taken as they are given.
\<close>

record movement =
  mv_dot :: "real \<Rightarrow> real \<Rightarrow> real"
  mv_velocityOnX :: "bool \<Rightarrow> real"
  mv_velocityOnY :: "bool \<Rightarrow> real"

subsection \<open>The plate\<close>

record plate =
  p_mass :: float32
  p_bounds :: bounds
  p_map :: "float32 list"
  p_age_map :: "u32 list"
  p_worldDimension :: world_dimension
  p_movement :: movement
  p_segments :: segments

text \<open>
  The constructor. The member initialisers run before the body: the mass is built from the
  heights behind \<open>m\<close> first, then the body checks \<open>m\<close> and the dimensions and copies the
  heights. The movement the constructor creates from the random source is an argument.
  The tests \<^verbatim>\<open>_x < 0\<close>, \<^verbatim>\<open>_y < 0\<close> and \<^verbatim>\<open>plate_age < 0\<close> of the body are on unsigned
  values and never hold. The array behind a pointer that is not null is a list, which
  must hold at least \<open>w * h\<close> heights. The seed only reaches the random source and is left
  out.
\<close>

definition plate_ctor ::
  "float32 list option \<Rightarrow> nat \<Rightarrow> nat \<Rightarrow> nat \<Rightarrow> nat \<Rightarrow> u32 \<Rightarrow> world_dimension \<Rightarrow> movement
     \<Rightarrow> error + plate" where
  "plate_ctor m w h x y plate_age worldDimension mv =
    (case MassBuilder_build m w h of
       Inl e \<Rightarrow> Inl e
     | Inr mass \<Rightarrow>
        (case m of
           None \<Rightarrow> Inl InvalidArgument
         | Some hs \<Rightarrow>
            if w \<le> 0 \<or> h \<le> 0 then Inl InvalidArgument
            else Inr \<lparr>p_mass = mass,
                      p_bounds = \<lparr>b_world = worldDimension, b_x = real x, b_y = real y,
                                  b_width = w, b_height = h\<rparr>,
                      p_map = map (\<lambda>k. hs ! k) [0..<w * h],
                      p_age_map = map (\<lambda>k. plate_age AND neg_bool (0 < hs ! k)) [0..<w * h],
                      p_worldDimension = worldDimension,
                      p_movement = mv,
                      p_segments = \<lparr>seg_ids = replicate (w * h) unassigned, seg_data = []\<rparr>\<rparr>))"

definition getCrust :: "plate \<Rightarrow> nat \<Rightarrow> nat \<Rightarrow> float32" where
  "getCrust p x y =
     (case getMapIndex (p_bounds p) x y of None \<Rightarrow> 0 | Some (i, lx, ly) \<Rightarrow> p_map p ! i)"

definition getCrustTimestamp :: "plate \<Rightarrow> nat \<Rightarrow> nat \<Rightarrow> u32" where
  "getCrustTimestamp p x y =
     (case getMapIndex (p_bounds p) x y of None \<Rightarrow> 0 | Some (i, lx, ly) \<Rightarrow> p_age_map p ! i)"

definition selectCollisionSegment :: "plate \<Rightarrow> nat \<Rightarrow> nat \<Rightarrow> error + nat" where
  "selectCollisionSegment p coll_x coll_y =
     (case getValidMapIndex (p_bounds p) coll_x coll_y of
        Inl e \<Rightarrow> Inl e
      | Inr (i, lx, ly) \<Rightarrow> Inr (seg_ids (p_segments p) ! i))"

subsection \<open>setCrust and the reframe\<close>

text \<open>Rounding a growth up to the next multiple of 8:
  \<^verbatim>\<open>d = ((d > 0) + (d >> 3)) << 3\<close>.\<close>

definition round8 :: "u32 \<Rightarrow> u32" where
  "round8 d = push_bit 3 ((if 0 < d then 1 else 0) + drop_bit 3 d)"

text \<open>
  The growth of the rectangle on its four sides for a cell \<open>(x, y)\<close> outside it
  (plate.cpp, lines 540 to 577): the wrap-aware distances to the edges in unsigned 32-bit
  arithmetic, the smaller one per axis kept, rounded, and capped by the world.
\<close>

definition growth :: "bounds \<Rightarrow> world_dimension \<Rightarrow> nat \<Rightarrow> nat \<Rightarrow> u32 \<times> u32 \<times> u32 \<times> u32" where
  "growth b wd x y =
    (let ilft = of_nat (leftAsUint b) :: u32;
         itop = of_nat (topAsUint b) :: u32;
         irgt = of_nat (rightAsUintNonInclusive b) :: u32;
         ibtm = of_nat (bottomAsUintNonInclusive b) :: u32;
         W = of_nat (wd_width wd) :: u32;
         H = of_nat (wd_height wd) :: u32;
         ux = of_nat x :: u32;
         uy = of_nat y :: u32;
         lft = ilft - ux;
         rgt = (W AND neg_bool (ux < ilft)) + ux - irgt;
         top = itop - uy;
         btm = (H AND neg_bool (uy < itop)) + uy - ibtm;
         d_lft = round8 (lft AND neg_bool (lft < rgt) AND neg_bool (lft < W));
         d_rgt = round8 (rgt AND neg_bool (rgt \<le> lft) AND neg_bool (rgt < W));
         d_top = round8 (top AND neg_bool (top < btm) AND neg_bool (top < H));
         d_btm = round8 (btm AND neg_bool (btm \<le> top) AND neg_bool (btm < H));
         bw = of_nat (b_width b) :: u32;
         bh = of_nat (b_height b) :: u32;
         capx = (W < bw + d_lft + d_rgt);
         capy = (H < bh + d_top + d_btm)
     in (if capx then 0 else d_lft, if capx then W - bw else d_rgt,
         if capy then 0 else d_top, if capy then H - bh else d_btm))"

text \<open>The loop that copies the old grid into the new one, row by row.\<close>

definition copy_rows :: "'a list \<Rightarrow> 'a list \<Rightarrow> nat \<Rightarrow> nat \<Rightarrow> nat \<Rightarrow> nat \<Rightarrow> nat \<Rightarrow> 'a list" where
  "copy_rows tmp src old_width old_height new_width d_lft d_top =
     fold (\<lambda>j t. memcpy t ((d_top + j) * new_width + d_lft) src (j * old_width) old_width)
       [0..<old_height] tmp"

text \<open>
  Lines 582 to 613: the plate in its enlarged frame. The rectangle is shifted and grown, the
  three grids are allocated (heights and ages 0, segment ids the sentinel), the old rows are
  copied to their offset and the segments' boxes are shifted.
\<close>

definition reframed :: "plate \<Rightarrow> u32 \<Rightarrow> u32 \<Rightarrow> u32 \<Rightarrow> u32 \<Rightarrow> plate" where
  "reframed p d_lft d_rgt d_top d_btm =
    (let old_width = b_width (p_bounds p);
         old_height = b_height (p_bounds p);
         b' = grow (shift (p_bounds p) (- 1 * real (unat d_lft)) (- 1 * real (unat d_top)))
                (unat (d_lft + d_rgt)) (unat (d_top + d_btm));
         tmph = copy_rows (replicate (area b') 0) (p_map p)
                  old_width old_height (b_width b') (unat d_lft) (unat d_top);
         tmpa = copy_rows (replicate (area b') 0) (p_age_map p)
                  old_width old_height (b_width b') (unat d_lft) (unat d_top);
         tmps = copy_rows (replicate (area b') unassigned) (seg_ids (p_segments p))
                  old_width old_height (b_width b') (unat d_lft) (unat d_top)
     in p\<lparr>p_bounds := b', p_map := tmph, p_age_map := tmpa,
          p_segments := segments_shift (reassign (p_segments p) tmps)
                          (unat d_lft) (unat d_top)\<rparr>)"

text \<open>
  The branch of \<^verbatim>\<open>setCrust\<close> for a cell outside the rectangle (lines 535 to 619): it
  returns the plate in its enlarged frame and the index of the cell there. The clamped
  height \<open>z\<close> is only asserted to be positive.
\<close>

definition reframe :: "plate \<Rightarrow> nat \<Rightarrow> nat \<Rightarrow> float32 \<Rightarrow> error + (plate \<times> nat)" where
  "reframe p x0 y0 z =
    (if \<not> 0 < z then Inl AssertionFailure
     else
       let (x, y) = normalize (p_worldDimension p) x0 y0;
           (d_lft, d_rgt, d_top, d_btm) = growth (p_bounds p) (p_worldDimension p) x y
       in if d_lft + d_rgt + d_top + d_btm = 0 then Inl AssertionFailure
          else
            let p' = reframed p d_lft d_rgt d_top d_btm
            in case getValidMapIndex (p_bounds p') x y of
                 Inl e \<Rightarrow> Inl e
               | Inr (i, lx, ly) \<Rightarrow>
                   if i < area (p_bounds p') then Inr (p', i) else Inl AssertionFailure)"

text \<open>Lines 531 to 619: the index of the target cell, after a reframe when the cell is
  outside the rectangle.\<close>

definition setCrust_index :: "plate \<Rightarrow> nat \<Rightarrow> nat \<Rightarrow> float32 \<Rightarrow> error + (plate \<times> nat)" where
  "setCrust_index p x y z =
     (case getMapIndex (p_bounds p) x y of
        Some (i, lx, ly) \<Rightarrow> Inr (p, i)
      | None \<Rightarrow> reframe p x y z)"

text \<open>Lines 621 to 632: the age, the mass and the height of the target cell. The weighted
  average of the two ages is taken in single precision (both ages converted, two products,
  a sum, a quotient by the sum of the heights, each rounded) and converted back.\<close>

definition setCrust_write :: "plate \<Rightarrow> nat \<Rightarrow> float32 \<Rightarrow> u32 \<Rightarrow> plate" where
  "setCrust_write p i z t0 =
    (let old_crust = neg_bool (0 < p_map p ! i);
         new_crust = neg_bool (0 < z);
         t = (t0 AND NOT old_crust) OR
             (f2u ((p_map p ! i * u2f (p_age_map p ! i) + z * u2f t0) / (p_map p ! i + z))
                AND old_crust);
         a = (t AND new_crust) OR (p_age_map p ! i AND NOT new_crust)
     in p\<lparr>p_age_map := (p_age_map p)[i := a],
          p_mass := incMass (incMass (p_mass p) (- 1 * (p_map p ! i))) z,
          p_map := (p_map p)[i := z]\<rparr>)"

definition setCrust :: "plate \<Rightarrow> nat \<Rightarrow> nat \<Rightarrow> float32 \<Rightarrow> u32 \<Rightarrow> error + plate" where
  "setCrust p x y z0 t =
    (let z = (if z0 < 0 then 0 else z0)
     in case setCrust_index p x y z of
          Inl e \<Rightarrow> Inl e
        | Inr (p1, i) \<Rightarrow> Inr (setCrust_write p1 i z t))"

subsection \<open>Collision and aggregation\<close>

definition addCrustByCollision :: "plate \<Rightarrow> nat \<Rightarrow> nat \<Rightarrow> float32 \<Rightarrow> u32 \<Rightarrow> nat \<Rightarrow> error + plate" where
  "addCrustByCollision p x y z time activeContinent =
    (case setCrust p x y (getCrust p x y + z) time of
       Inl e \<Rightarrow> Inl e
     | Inr p1 \<Rightarrow>
        (case getValidMapIndex (p_bounds p1) x y of
           Inl e \<Rightarrow> Inl e
         | Inr (i, lx, ly) \<Rightarrow>
            let segs = setId (p_segments p1) i activeContinent
            in case segments_at segs activeContinent of
                 Inl e \<Rightarrow> Inl e
               | Inr d \<Rightarrow>
                   Inr (p1\<lparr>p_segments :=
                          segs\<lparr>seg_data := (seg_data segs)
                                 [activeContinent := enlarge_to_contain (incArea d) lx ly]\<rparr>\<rparr>)))"

text \<open>
  The body of the two loops of \<^verbatim>\<open>aggregateCrust\<close> at the local cell \<open>(x, y)\<close> of the source
  plate \<open>a\<close>; \<open>wx\<close> and \<open>wy\<close> are the collision point already offset by the world's
  dimensions, \<open>lx\<close> and \<open>ly\<close> its local coordinates.
\<close>

definition aggregate_cell ::
  "nat \<Rightarrow> nat \<Rightarrow> nat \<Rightarrow> nat \<Rightarrow> nat \<Rightarrow> nat \<Rightarrow> plate \<times> plate \<Rightarrow> nat \<times> nat \<Rightarrow> error + plate \<times> plate" where
  "aggregate_cell seg_id activeContinent wx wy lx ly ab xy =
    (let a = fst ab; p = snd ab; x = fst xy; y = snd xy;
         i = y * b_width (p_bounds a) + x
     in if seg_ids (p_segments a) ! i = seg_id \<and> 0 < p_map a ! i then
          (case addCrustByCollision p (wx + x - lx) (wy + y - ly)
                  (p_map a ! i) (p_age_map a ! i) activeContinent of
             Inl e \<Rightarrow> Inl e
           | Inr p' \<Rightarrow>
               Inr (a\<lparr>p_mass := incMass (p_mass a) (- 1 * (p_map a ! i)),
                      p_map := (p_map a)[i := 0]\<rparr>, p'))
        else Inr (a, p))"

fun aggregate_loop ::
  "nat \<Rightarrow> nat \<Rightarrow> nat \<Rightarrow> nat \<Rightarrow> nat \<Rightarrow> nat \<Rightarrow> plate \<times> plate \<Rightarrow> (nat \<times> nat) list \<Rightarrow> error + plate \<times> plate" where
  "aggregate_loop seg_id ac wx wy lx ly ab [] = Inr ab"
| "aggregate_loop seg_id ac wx wy lx ly ab (xy # cells) =
     (case aggregate_cell seg_id ac wx wy lx ly ab xy of
        Inl e \<Rightarrow> Inl e
      | Inr ab' \<Rightarrow> aggregate_loop seg_id ac wx wy lx ly ab' cells)"

text \<open>The cells the two loops visit, in their order: rows from top to bottom, each from
  left to right, both ends included.\<close>

definition segment_cells :: "segment_data \<Rightarrow> (nat \<times> nat) list" where
  "segment_cells d =
     concat (map (\<lambda>y. map (\<lambda>x. (x, y)) [sd_left d..<Suc (sd_right d)])
               [sd_top d..<Suc (sd_bottom d)])"

text \<open>\<^verbatim>\<open>a.aggregateCrust(p, wx, wy)\<close>: the returned mass, the source plate and the
  destination plate.\<close>

definition aggregateCrust :: "plate \<Rightarrow> plate \<Rightarrow> nat \<Rightarrow> nat \<Rightarrow> error + (float32 \<times> plate \<times> plate)" where
  "aggregateCrust a p wx wy =
    (case getValidMapIndex (p_bounds a) wx wy of
       Inl e \<Rightarrow> Inl e
     | Inr (i, lx, ly) \<Rightarrow>
        let seg_id = seg_ids (p_segments a) ! i
        in case segments_at (p_segments a) seg_id of
             Inl e \<Rightarrow> Inl e
           | Inr d \<Rightarrow>
              if isEmpty d then Inr (0, a, p)
              else
                (case selectCollisionSegment p wx wy of
                   Inl e \<Rightarrow> Inl e
                 | Inr activeContinent \<Rightarrow>
                    let wx' = wx + wd_width (p_worldDimension a);
                        wy' = wy + wd_height (p_worldDimension a);
                        old_mass = p_mass a
                    in case aggregate_loop seg_id activeContinent wx' wy' lx ly (a, p)
                              (segment_cells d) of
                         Inl e \<Rightarrow> Inl e
                       | Inr (a', p') \<Rightarrow>
                           let a'' = a'\<lparr>p_segments := (p_segments a')
                                      \<lparr>seg_data := (seg_data (p_segments a'))
                                          [seg_id := markNonExistent d]\<rparr>\<rparr>
                           in Inr (old_mass - p_mass a'', a'', p')))"

subsection \<open>Subduction\<close>

text \<open>
  The random perturbation of lines 136 to 138; \<open>rd\<close> is the value \<^verbatim>\<open>next_double()\<close>
  returned and \<open>rn\<close> the value \<^verbatim>\<open>next()\<close> returned.
\<close>

definition offset_sign :: "u32 \<Rightarrow> real" where
  "offset_sign rn = 2 * real_of_int (int (unat (rn mod 2))) - 1"

definition subduction_offset :: "real \<Rightarrow> u32 \<Rightarrow> real" where
  "subduction_offset rd rn = (let offset = rd in offset * (offset * offset * offset_sign rn))"

text \<open>Lines 132 to 140: the displacement \<open>(dx, dy)\<close> applied to the subducting cell.\<close>

definition subduction_displacement :: "movement \<Rightarrow> real \<Rightarrow> real \<Rightarrow> real \<Rightarrow> u32 \<Rightarrow> real \<times> real" where
  "subduction_displacement mv dx0 dy0 rd rn =
    (let dot = mv_dot mv dx0 dy0;
         dx = dx0 - mv_velocityOnX mv (0 < dot);
         dy = dy0 - mv_velocityOnY mv (0 < dot);
         offset = subduction_offset rd rn
     in (10 * dx + 3 * offset, 10 * dy + 3 * offset))"


subsection \<open>River sources\<close>






subsection \<open>Well-formed plates\<close>

text \<open>
  The invariants of section 3 of the specification that the statements below rely on: the
  world is not empty, the corner of the rectangle lies in the world, the plate's copy of the
  world dimension is the rectangle's, and the three grids have as many cells as the
  rectangle.
\<close>

definition bounds_wf :: "bounds \<Rightarrow> bool" where
  "bounds_wf b =
     (0 < wd_width (b_world b) \<and> 0 < wd_height (b_world b) \<and>
      0 \<le> b_x b \<and> b_x b < real (wd_width (b_world b)) \<and>
      0 \<le> b_y b \<and> b_y b < real (wd_height (b_world b)))"

definition plate_wf :: "plate \<Rightarrow> bool" where
  "plate_wf p =
     (bounds_wf (p_bounds p) \<and> b_world (p_bounds p) = p_worldDimension p \<and>
      length (p_map p) = area (p_bounds p) \<and>
      length (p_age_map p) = area (p_bounds p) \<and>
      length (seg_ids (p_segments p)) = area (p_bounds p))"

text \<open>Crust heights are never negative (section 3, HeightMap).\<close>

definition crust_nonneg :: "plate \<Rightarrow> bool" where
  "crust_nonneg p = list_all (\<lambda>v. 0 \<le> v) (p_map p)"

text \<open>The local coordinate of a world coordinate on one axis, for a rectangle whose corner
  is at \<open>ilft\<close> in a world of size \<open>W\<close>.\<close>

definition local_coord :: "nat \<Rightarrow> nat \<Rightarrow> nat \<Rightarrow> nat" where
  "local_coord W ilft px = (px mod W + W - ilft) mod W"

text \<open>The cells of the enlarged grid that hold a copy of an old cell: the old grid of
  \<open>ow\<close> by \<open>oh\<close> cells lies at the offset \<open>(dl, dt)\<close> of a grid \<open>nw\<close> cells wide.\<close>

definition in_old_frame :: "nat \<Rightarrow> nat \<Rightarrow> nat \<Rightarrow> nat \<Rightarrow> nat \<Rightarrow> nat \<Rightarrow> bool" where
  "in_old_frame ow oh nw dl dt k =
     (dt \<le> k div nw \<and> k div nw < dt + oh \<and> dl \<le> k mod nw \<and> k mod nw < dl + ow)"

subsection \<open>The cells an aggregation transfers\<close>

text \<open>
  For the statement about \<open>aggregateCrust\<close>: the cells of the segment's box that carry the
  segment's id and crust on the plate \<open>a\<close>, in the order of the loops, and the calls of
  \<open>addCrustByCollision\<close> one after the other on a list of cells, heights and ages.
\<close>

definition cell_index :: "plate \<Rightarrow> nat \<times> nat \<Rightarrow> nat" where
  "cell_index a xy = snd xy * b_width (p_bounds a) + fst xy"

definition carries :: "plate \<Rightarrow> nat \<Rightarrow> nat \<times> nat \<Rightarrow> bool" where
  "carries a seg_id xy =
     (seg_ids (p_segments a) ! cell_index a xy = seg_id \<and> 0 < p_map a ! cell_index a xy)"

definition transferred :: "plate \<Rightarrow> nat \<Rightarrow> segment_data \<Rightarrow> (nat \<times> nat) list" where
  "transferred a seg_id d = filter (carries a seg_id) (segment_cells d)"

fun collide_all :: "nat \<Rightarrow> plate \<Rightarrow> (nat \<times> nat \<times> float32 \<times> u32) list \<Rightarrow> error + plate" where
  "collide_all ac p [] = Inr p"
| "collide_all ac p ((x, y, z, t) # cs) =
     (case addCrustByCollision p x y z t ac of
        Inl e \<Rightarrow> Inl e
      | Inr p' \<Rightarrow> collide_all ac p' cs)"

text \<open>The call \<open>aggregateCrust\<close> makes for the cell \<open>(x, y)\<close> of the plate \<open>a\<close>.\<close>

definition collision_of ::
  "plate \<Rightarrow> nat \<Rightarrow> nat \<Rightarrow> nat \<Rightarrow> nat \<Rightarrow> nat \<times> nat \<Rightarrow> nat \<times> nat \<times> float32 \<times> u32" where
  "collision_of a wx wy lx ly xy =
     (wx + fst xy - lx, wy + snd xy - ly,
      p_map a ! cell_index a xy, p_age_map a ! cell_index a xy)"

subsection \<open>Example plates\<close>

text \<open>
  The plate of scenario S1 of the specification: 3 by 3 cells at the origin \<open>(2, 2)\<close> of a
  world of 10 by 10 cells, one unit of crust of age 5 in the middle; it does not move.
\<close>

definition world10 :: world_dimension where
  "world10 = \<lparr>wd_width = 10, wd_height = 10\<rparr>"

definition still :: movement where
  "still = \<lparr>mv_dot = (\<lambda>dx dy. 0), mv_velocityOnX = (\<lambda>r. 0), mv_velocityOnY = (\<lambda>r. 0)\<rparr>"

definition bounds_S1 :: bounds where
  "bounds_S1 = \<lparr>b_world = world10, b_x = 2, b_y = 2, b_width = 3, b_height = 3\<rparr>"

definition plate_S1 :: plate where
  "plate_S1 =
     \<lparr>p_mass = 1, p_bounds = bounds_S1,
      p_map = [0, 0, 0, 0, 1, 0, 0, 0, 0],
      p_age_map = [0, 0, 0, 0, 5, 0, 0, 0, 0],
      p_worldDimension = world10, p_movement = still,
      p_segments = \<lparr>seg_ids = replicate 9 unassigned, seg_data = []\<rparr>\<rparr>"

text \<open>The same plate after its land cell was made the continent 0.\<close>

definition continent_S4 :: segments where
  "continent_S4 =
     \<lparr>seg_ids = (replicate 9 unassigned)[4 := 0],
      seg_data = [\<lparr>sd_left = 1, sd_top = 1, sd_right = 1, sd_bottom = 1, sd_area = 1,
                   sd_collCount = 0, sd_exists = True\<rparr>]\<rparr>"

definition plate_S4 :: plate where
  "plate_S4 = plate_S1\<lparr>p_segments := continent_S4\<rparr>"




section \<open>Single-precision arithmetic\<close>

subsection \<open>Rounding to the nearest integer\<close>

lemma rne_of_int [simp]: "rne (of_int k) = k"
  by (simp add: rne_def)

lemma rne_floor: "\<lfloor>x\<rfloor> \<le> rne x" and rne_ceil: "rne x \<le> \<lfloor>x\<rfloor> + 1"
  by (simp_all add: rne_def Let_def)


lemma rne_mono:
  assumes "x \<le> y"
  shows "rne x \<le> rne y"
proof (cases "\<lfloor>x\<rfloor> = \<lfloor>y\<rfloor>")
  case True
  then show ?thesis using assms by (auto simp: rne_def Let_def)
next
  case False
  then have "\<lfloor>x\<rfloor> < \<lfloor>y\<rfloor>" using floor_mono [OF assms] by linarith
  then show ?thesis using rne_ceil [of x] rne_floor [of y] by linarith
qed

lemma rne_uminus: "rne (- x) = - rne x"
proof (cases "x = of_int \<lfloor>x\<rfloor>")
  case True
  then have "rne x = \<lfloor>x\<rfloor>" by (metis rne_of_int)
  moreover have "- x = of_int (- \<lfloor>x\<rfloor>)" using True by simp
  then have "rne (- x) = - \<lfloor>x\<rfloor>" by (metis rne_of_int)
  ultimately show ?thesis by simp
next
  case False
  then have lt: "of_int \<lfloor>x\<rfloor> < x" by linarith
  have ub: "x < of_int \<lfloor>x\<rfloor> + 1" by linarith
  have f: "\<lfloor>- x\<rfloor> = - \<lfloor>x\<rfloor> - 1"
  proof (rule floor_unique)
    have "- real_of_int \<lfloor>x\<rfloor> - 1 \<le> - x" using ub by linarith
    then show "of_int (- \<lfloor>x\<rfloor> - 1) \<le> - x" by simp
    show "- x < of_int (- \<lfloor>x\<rfloor> - 1) + 1"
      using lt by simp
  qed
  show ?thesis
    unfolding rne_def Let_def f using lt by auto
qed

subsection \<open>The binary exponent\<close>

lemma expo_bounds:
  assumes "0 < x"
  shows "2 powi expo x \<le> x" and "x < 2 powi (expo x + 1)"
proof -
  have "2 powi expo x \<le> x \<and> x < 2 powi (expo x + 1)"
  proof (cases "1 \<le> x")
    case True
    define n where "n = \<lfloor>x\<rfloor>"
    have n: "0 < n" using True by (simp add: n_def)
    have b: "1 \<le> bitlen n" using n by (simp add: bitlen_alt_def)
    note bb = bitlen_bounds [OF n]
    have e: "expo x = bitlen n - 1" using True by (simp add: expo_def n_def)
    have "2 powi expo x = 2 ^ nat (bitlen n - 1)" using b by (simp add: e power_int_def)
    also have "\<dots> \<le> real_of_int n" using bb by (metis of_int_le_iff of_int_numeral of_int_power)
    also have "\<dots> \<le> x" by (simp add: n_def)
    finally have 1: "2 powi expo x \<le> x" .
    have "n + 1 \<le> 2 ^ nat (bitlen n)" using bb by simp
    then have "real_of_int (n + 1) \<le> 2 ^ nat (bitlen n)"
      by (metis of_int_le_iff of_int_numeral of_int_power)
    moreover have "x < real_of_int (n + 1)" by (simp add: n_def)
    ultimately have "x < 2 ^ nat (bitlen n)" by linarith
    moreover have "2 powi (expo x + 1) = (2::real) ^ nat (bitlen n)"
      using b by (simp add: e power_int_def)
    ultimately show ?thesis using 1 by simp
  next
    case False
    define y where "y = 1 / x"
    define m where "m = \<lceil>y\<rceil> - 1"
    have y: "1 < y" using False assms by (simp add: y_def)
    have m: "0 < m" using y unfolding m_def by linarith
    have b: "1 \<le> bitlen m" using m by (simp add: bitlen_alt_def)
    note bb = bitlen_bounds [OF m]
    have e: "expo x = - bitlen m" using False by (simp add: expo_def m_def y_def)
    have my: "real_of_int m < y" "y \<le> real_of_int (m + 1)"
      unfolding m_def by linarith+
    have "m + 1 \<le> 2 ^ nat (bitlen m)" using bb by simp
    then have "real_of_int (m + 1) \<le> 2 ^ nat (bitlen m)"
      by (metis of_int_le_iff of_int_numeral of_int_power)
    then have "y \<le> 2 ^ nat (bitlen m)" using my by linarith
    then have "1 / 2 ^ nat (bitlen m) \<le> x"
      using assms by (simp add: y_def field_simps)
    moreover have "2 powi expo x = 1 / (2::real) ^ nat (bitlen m)"
      using b by (simp add: e power_int_def power_one_over [symmetric] inverse_eq_divide)
    ultimately have 1: "2 powi expo x \<le> x" by simp
    have "(2::real) ^ nat (bitlen m - 1) \<le> real_of_int m"
      using bb by (metis of_int_le_iff of_int_numeral of_int_power)
    then have "(2::real) ^ nat (bitlen m - 1) < y" using my by linarith
    then have "x < 1 / 2 ^ nat (bitlen m - 1)"
      using assms by (simp add: y_def field_simps)
    moreover have "2 powi (expo x + 1) = 1 / (2::real) ^ nat (bitlen m - 1)"
    proof -
      have "expo x + 1 = - (bitlen m - 1)" by (simp add: e)
      moreover have "0 \<le> bitlen m - 1" using b by simp
      ultimately show ?thesis
        by (simp add: power_int_def power_one_over [symmetric] inverse_eq_divide del: of_int_diff)
    qed
    ultimately show ?thesis using 1 by simp
  qed
  then show "2 powi expo x \<le> x" and "x < 2 powi (expo x + 1)" by simp_all
qed


subsection \<open>Rounding to single precision\<close>

lemma rne_0 [simp]: "rne 0 = 0"
  by (simp add: rne_def)

lemma pow2_less_imp: "(2::real) powi a < 2 powi b \<Longrightarrow> a < b"
proof (rule ccontr)
  assume a: "(2::real) powi a < 2 powi b" and "\<not> a < b"
  then have "(2::real) powi b \<le> 2 powi a" by (intro power_int_increasing) simp_all
  then show False using a by linarith
qed

lemma pow2_shift: "(2::real) powi (n + int k) = 2 ^ k * 2 powi n"
  by (simp add: power_int_add)

lemma pow2_up24: "(2::real) powi (n + 1) = 2 ^ 24 * 2 powi (n - 23)"
proof -
  have "n + 1 = (n - 23) + int 24" by simp
  then show ?thesis by (simp only: pow2_shift)
qed

lemma pow2_up23: "(2::real) powi n = 2 ^ 23 * 2 powi (n - 23)"
proof -
  have "n = (n - 23) + int 23" by simp
  then have "(2::real) powi n = 2 powi ((n - 23) + int 23)" by simp
  then show ?thesis by (simp only: pow2_shift)
qed

lemma pow2_up1: "(2::real) powi (n + 1) = 2 * 2 powi n"
  using pow2_shift [of n 1] by simp

lemma quantum_pos: "0 < quantum x"
  by (simp add: quantum_def)

lemma quantum_uminus: "quantum (- x) = quantum x"
  by (simp add: quantum_def)


lemma f32_round_0 [simp]: "f32_round 0 = 0"
  by (simp add: f32_round_def)

lemma f32_round_uminus: "f32_round (- x) = - f32_round x"
  by (simp add: f32_round_def quantum_uminus rne_uminus)



lemma quantum_cases:
  obtains (zero) "x = 0"
  | (val) e where "x \<noteq> 0" "2 powi e \<le> \<bar>x\<bar>" "\<bar>x\<bar> < 2 powi (e + 1)"
      "quantum x = 2 powi (max e (- 126) - 23)"
proof (cases "x = 0")
  case True
  then show ?thesis by (rule zero)
next
  case False
  then have pos: "0 < \<bar>x\<bar>" by simp
  show ?thesis
    by (rule val [OF False expo_bounds [OF pos]]) (simp add: quantum_def)
qed

lemma scaled_bound:
  "\<bar>x / quantum x\<bar> < 2 ^ 24"
proof (cases x rule: quantum_cases)
  case zero
  then show ?thesis by simp
next
  case (val e)
  let ?e' = "max e (- 126)"
  have "\<bar>x\<bar> < 2 powi (?e' + 1)"
  proof -
    have "(2::real) powi (e + 1) \<le> 2 powi (?e' + 1)"
      by (intro power_int_increasing) simp_all
    then show ?thesis using val(3) by linarith
  qed
  also have "(2::real) powi (?e' + 1) = 2 ^ 24 * 2 powi (?e' - 23)"
    by (rule pow2_up24)
  finally have "\<bar>x\<bar> < 2 ^ 24 * quantum x" by (simp add: val(4))
  then show ?thesis using quantum_pos [of x] by (simp add: field_simps abs_mult)
qed

lemma mantissa_bound: "\<bar>rne (x / quantum x)\<bar> \<le> 2 ^ 24"
proof -
  have "- (2 ^ 24) \<le> x / quantum x" "x / quantum x \<le> 2 ^ 24"
    using scaled_bound [of x] by linarith+
  then have "rne (of_int (- (2 ^ 24))) \<le> rne (x / quantum x)"
       "rne (x / quantum x) \<le> rne (of_int (2 ^ 24))"
    by (intro rne_mono; simp)+
  then show ?thesis unfolding rne_of_int by linarith
qed

text \<open>A value with a mantissa of 24 bits and an exponent in range is not changed.\<close>

lemma f32_round_exact:
  assumes "\<bar>k\<bar> < 2 ^ 24" and "- 149 \<le> j"
  shows "f32_round (of_int k * 2 powi j) = of_int k * 2 powi j"
proof (cases "of_int k * (2::real) powi j" rule: quantum_cases)
  case zero
  then show ?thesis by simp
next
  case (val e)
  let ?x = "of_int k * (2::real) powi j"
  let ?e' = "max e (- 126)"
  have "\<bar>?x\<bar> = \<bar>of_int k\<bar> * 2 powi j" by (simp add: abs_mult)
  also have "\<dots> < 2 ^ 24 * 2 powi j"
  proof -
    have "\<bar>real_of_int k\<bar> < 2 ^ 24" using assms(1) by (metis of_int_abs of_int_less_numeral_power_cancel_iff)
    then show ?thesis by simp
  qed
  also have "\<dots> = 2 powi (j + 24)" by (simp add: power_int_add)
  finally have "(2::real) powi e < 2 powi (j + 24)" using val(2) by linarith
  then have "e < j + 24" by (rule pow2_less_imp)
  then have le: "?e' - 23 \<le> j" using assms(2) by simp
  define n where "n = nat (j - (?e' - 23))"
  have j: "j = (?e' - 23) + int n" using le by (simp add: n_def)
  have "?x / quantum ?x = of_int k * 2 ^ n"
    unfolding val(4) by (subst j) (simp add: power_int_add)
  also have "\<dots> = of_int (k * 2 ^ n)" by simp
  finally have "rne (?x / quantum ?x) = k * 2 ^ n" by (simp only: rne_of_int)
  then have "f32_round ?x = of_int (k * 2 ^ n) * 2 powi (?e' - 23)"
    by (simp add: f32_round_def val(4))
  also have "\<dots> = of_int k * (2 powi int n * 2 powi (?e' - 23))" by simp
  also have "2 powi int n * (2::real) powi (?e' - 23) = 2 powi j"
    by (subst j) (simp add: power_int_add)
  finally show ?thesis .
qed

lemma f32_round_int:
  assumes "\<bar>k\<bar> < 2 ^ 24"
  shows "f32_round (of_int k) = of_int k"
  using f32_round_exact [OF assms, of 0] by simp

lemma f32_round_idem [simp]: "f32_round (f32_round x) = f32_round x"
proof (cases x rule: quantum_cases)
  case zero
  then show ?thesis by simp
next
  case (val e)
  let ?k = "rne (x / quantum x)"
  let ?j = "max e (- 126) - 23"
  have r: "f32_round x = of_int ?k * 2 powi ?j" by (simp add: f32_round_def val(4))
  have j: "- 149 \<le> ?j" by simp
  show ?thesis
  proof (cases "\<bar>?k\<bar> < 2 ^ 24")
    case True
    show ?thesis unfolding r by (rule f32_round_exact [OF True j])
  next
    case False
    then have "\<bar>?k\<bar> = 2 ^ 24" using mantissa_bound [of x] by linarith
    then consider "?k = 2 ^ 24" | "?k = - (2 ^ 24)" by linarith
    then show ?thesis
    proof cases
      case 1
      have "f32_round x = of_int (2 ^ 23) * 2 powi (?j + 1)"
        unfolding r 1 pow2_up1 by simp
      moreover have "f32_round (of_int (2 ^ 23) * 2 powi (?j + 1)) = of_int (2 ^ 23) * 2 powi (?j + 1)"
        by (rule f32_round_exact) simp_all
      ultimately show ?thesis by simp
    next
      case 2
      have "f32_round x = of_int (- (2 ^ 23)) * 2 powi (?j + 1)"
        unfolding r 2 pow2_up1 by simp
      moreover have "f32_round (of_int (- (2 ^ 23)) * 2 powi (?j + 1))
          = of_int (- (2 ^ 23)) * 2 powi (?j + 1)"
        by (rule f32_round_exact) simp_all
      ultimately show ?thesis by simp
    qed
  qed
qed

lemma f32_round_nonneg: "0 \<le> x \<Longrightarrow> 0 \<le> f32_round x"
proof -
  assume "0 \<le> x"
  then have "0 \<le> x / quantum x" using quantum_pos [of x] by simp
  then have "rne 0 \<le> rne (x / quantum x)" by (rule rne_mono)
  then have "0 \<le> real_of_int (rne (x / quantum x))" by simp
  then show ?thesis using quantum_pos [of x] by (simp add: f32_round_def)
qed

lemma f32_round_nonpos: "x \<le> 0 \<Longrightarrow> f32_round x \<le> 0"
  using f32_round_nonneg [of "- x"] by (simp add: f32_round_uminus)

lemma expo_mono:
  assumes "0 < x" and "x \<le> y"
  shows "expo x \<le> expo y"
proof (rule ccontr)
  assume "\<not> expo x \<le> expo y"
  then have "expo y + 1 \<le> expo x" by simp
  then have "(2::real) powi (expo y + 1) \<le> 2 powi expo x"
    by (intro power_int_increasing) simp_all
  moreover have "0 < y" using assms by simp
  ultimately show False
    using expo_bounds(1) [OF assms(1)] expo_bounds(2) [of y] assms(2) by linarith
qed

lemma f32_round_mono_pos:
  assumes "0 < x" and "x \<le> y"
  shows "f32_round x \<le> f32_round y"
proof -
  have y: "0 < y" using assms by simp
  let ?ex = "max (expo x) (- 126)" and ?ey = "max (expo y) (- 126)"
  have qx: "quantum x = 2 powi (?ex - 23)" and qy: "quantum y = 2 powi (?ey - 23)"
    using assms(1) y by (simp_all add: quantum_def)
  have le: "?ex \<le> ?ey" using expo_mono [OF assms] by simp
  show ?thesis
  proof (cases "?ex = ?ey")
    case True
    then have q: "quantum x = quantum y" by (simp add: qx qy)
    have "x / quantum y \<le> y / quantum y"
      using assms(2) quantum_pos [of y] by (simp add: divide_right_mono)
    then have "rne (x / quantum y) \<le> rne (y / quantum y)" by (rule rne_mono)
    then show ?thesis using quantum_pos [of y] by (simp add: f32_round_def q)
  next
    case False
    then have lt: "?ex + 1 \<le> ?ey" using le by simp
    then have ey: "?ey = expo y" by simp
    have "rne (x / quantum x) \<le> 2 ^ 24" using mantissa_bound [of x] by linarith
    then have "real_of_int (rne (x / quantum x)) \<le> real_of_int (2 ^ 24)"
      by (simp only: of_int_le_iff)
    then have "real_of_int (rne (x / quantum x)) \<le> 2 ^ 24" by simp
    then have "f32_round x \<le> 2 ^ 24 * quantum x"
      using quantum_pos [of x] by (simp add: f32_round_def)
    also have "\<dots> = 2 powi (?ex + 1)"
      unfolding qx by (rule pow2_up24 [symmetric])
    also have "\<dots> \<le> 2 powi ?ey" using lt by (intro power_int_increasing) simp_all
    finally have 1: "f32_round x \<le> 2 powi ?ey" .
    have "2 powi ?ey \<le> y" unfolding ey by (rule expo_bounds(1) [OF y])
    then have "2 powi ?ey / quantum y \<le> y / quantum y"
      using quantum_pos [of y] by (simp add: divide_right_mono)
    moreover have "2 powi ?ey / quantum y = of_int (2 ^ 23)"
      unfolding qy using pow2_up23 [of ?ey] by simp
    ultimately have "rne (of_int (2 ^ 23)) \<le> rne (y / quantum y)"
      by (intro rne_mono) simp
    then have "2 ^ 23 \<le> rne (y / quantum y)" by (simp only: rne_of_int)
    then have "real_of_int (2 ^ 23) \<le> real_of_int (rne (y / quantum y))"
      by (simp only: of_int_le_iff)
    then have "(2::real) ^ 23 \<le> real_of_int (rne (y / quantum y))" by simp
    then have "2 ^ 23 * quantum y \<le> f32_round y"
      using quantum_pos [of y] by (simp add: f32_round_def)
    moreover have "2 ^ 23 * quantum y = 2 powi ?ey"
      unfolding qy by (rule pow2_up23 [symmetric])
    ultimately show ?thesis using 1 by linarith
  qed
qed

lemma f32_round_mono:
  assumes "x \<le> y"
  shows "f32_round x \<le> f32_round y"
proof -
  consider "0 < x" | "x \<le> 0" "0 \<le> y" | "y < 0" by linarith
  then show ?thesis
  proof cases
    case 1
    then show ?thesis using assms by (rule f32_round_mono_pos)
  next
    case 2
    then show ?thesis using f32_round_nonpos [of x] f32_round_nonneg [of y] by linarith
  next
    case 3
    then have "0 < - y" "- y \<le> - x" using assms by simp_all
    from f32_round_mono_pos [OF this] show ?thesis by (simp add: f32_round_uminus)
  qed
qed

subsection \<open>Single-precision values\<close>

lemma fv_fl [simp]: "fv (fl x) = f32_round x"
  by (simp add: fl_def Abs_float32_inverse)

lemma f32_round_fv [simp]: "f32_round (fv a) = fv a"
proof -
  obtain y where "fv a = f32_round y" using fv [of a] by blast
  then show ?thesis by simp
qed

lemma fl_fv [simp]: "fl (fv a) = a"
  by (simp add: fl_def fv_inverse)

lemma fv_zero [simp]: "fv 0 = 0"
  by (simp add: zero_float32_def)

lemma fv_one [simp]: "fv 1 = 1"
  using f32_round_int [of 1] by (simp add: one_float32_def)

lemma fv_eq_iff: "a = b \<longleftrightarrow> fv a = fv b"
  by (simp add: fv_inject)

lemma fv_plus: "fv (a + b) = f32_round (fv a + fv b)"
  and fv_minus: "fv (a - b) = f32_round (fv a - fv b)"
  and fv_uminus: "fv (- a) = - fv a"
  and fv_times: "fv (a * b) = f32_round (fv a * fv b)"
  and fv_divide: "fv (a / b) = f32_round (fv a / fv b)"
  by (simp_all add: plus_float32_def minus_float32_def uminus_float32_def times_float32_def
      divide_float32_def f32_round_uminus)

lemma less_float32_iff: "a < b \<longleftrightarrow> fv a < fv b"
  and less_eq_float32_iff: "a \<le> b \<longleftrightarrow> fv a \<le> fv b"
  by (simp_all add: less_float32_def less_eq_float32_def)

lemmas float32_cmp = less_float32_iff less_eq_float32_iff fv_eq_iff

lemma float32_0_1 [simp]:
  "(0::float32) < 1" "(0::float32) \<le> 1" "(0::float32) \<noteq> 1" "(1::float32) \<noteq> 0"
  by (simp_all add: float32_cmp)

lemma fl_sign [simp]:
  "0 < fl x \<longleftrightarrow> 0 < f32_round x" "fl x < 0 \<longleftrightarrow> f32_round x < 0"
  "0 \<le> fl x \<longleftrightarrow> 0 \<le> f32_round x" "fl x \<le> 0 \<longleftrightarrow> f32_round x \<le> 0"
  "fl x = 0 \<longleftrightarrow> f32_round x = 0"
  by (simp_all add: float32_cmp)

lemma float32_add_0 [simp]: "a + 0 = a" "0 + a = a" for a :: float32
  by (simp_all add: fv_eq_iff fv_plus)

lemma float32_diff_0 [simp]: "a - 0 = a" for a :: float32
  by (simp add: fv_eq_iff fv_minus)

lemma float32_diff_self [simp]: "a - a = 0" for a :: float32
  by (simp add: fv_eq_iff fv_minus)

lemma float32_mult_1 [simp]: "1 * a = a" "a * 1 = a" for a :: float32
  by (simp_all add: fv_eq_iff fv_times)

lemma float32_mult_minus_1 [simp]: "- 1 * a = - a" for a :: float32
  by (simp add: fv_eq_iff fv_times fv_uminus f32_round_uminus)

lemma float32_add_uminus [simp]: "a + - b = a - b" for a b :: float32
  by (simp add: fv_eq_iff fv_plus fv_minus fv_uminus)

lemma float32_add_nonneg: "0 \<le> a \<Longrightarrow> 0 \<le> b \<Longrightarrow> 0 \<le> a + b" for a b :: float32
  by (simp add: less_eq_float32_iff fv_plus f32_round_nonneg)

lemma float32_diff_le: "0 \<le> b \<Longrightarrow> a - b \<le> a" for a b :: float32
proof -
  assume "0 \<le> b"
  then have "fv a - fv b \<le> fv a" by (simp add: less_eq_float32_iff)
  from f32_round_mono [OF this] show ?thesis by (simp add: less_eq_float32_iff fv_minus)
qed

lemma float32_diff_nonneg: "b \<le> a \<Longrightarrow> 0 \<le> a - b" for a b :: float32
  by (simp add: less_eq_float32_iff fv_minus f32_round_nonneg)


lemma f32_round_numeral [simp]:
  "(numeral n :: int) < 2 ^ 24 \<Longrightarrow> f32_round (numeral n) = numeral n"
  using f32_round_int [of "numeral n"] by simp

lemma f32_round_1 [simp]: "f32_round 1 = 1"
  using f32_round_int [of 1] by simp

lemma f32_round_half [simp]: "f32_round (1 / 2) = 1 / 2"
  using f32_round_exact [of 1 "- 1"] by simp

subsection \<open>The error of a rounding\<close>








section \<open>The constructor\<close>

text \<open>
  Claim C3 (the code misses it). A constructor call with a null heights pointer, or a zero
  width or height, should report \<open>InvalidArgument\<close>. The check of the pointer stands in the
  constructor's body, and the mass is built from the heights in the member initialisers,
  which run first: with a null pointer and a plate of one cell the construction reads
  through the pointer and never reaches the check.
\<close>

theorem ctor_null_heights_fault:
  "plate_ctor None 1 1 x y plate_age wd mv = Inl NullDereference"
  by (simp add: plate_ctor_def MassBuilder_build_def)

text \<open>With a zero dimension no height is read, and the body reports \<open>InvalidArgument\<close>.\<close>

lemma ctor_zero_dimension:
  "w = 0 \<or> h = 0 \<Longrightarrow> plate_ctor m w h x y plate_age wd mv = Inl InvalidArgument"
  by (auto simp: plate_ctor_def MassBuilder_build_def split: option.splits)

text \<open>Scenario S1: the constructor builds the example plate.\<close>

lemma plate_S1_ctor:
  "plate_ctor (Some [0, 0, 0, 0, 1, 0, 0, 0, 0]) 3 3 2 2 5 world10 still = Inr plate_S1"
  by (simp add: plate_ctor_def MassBuilder_build_def plate_S1_def bounds_S1_def upt_rec
      neg_bool_def)

section \<open>Subduction\<close>

subsection \<open>The random perturbation\<close>

lemma offset_sign_cases: "offset_sign rn = - 1 \<or> offset_sign rn = 1"
proof -
  have "unat (rn mod 2) = unat rn mod 2" by (simp add: unat_mod)
  moreover have "unat rn mod 2 = 0 \<or> unat rn mod 2 = 1" by presburger
  ultimately show ?thesis by (auto simp: offset_sign_def)
qed

text \<open>
  Claim C7, amended. The perturbation is the sign times the \<^emph>\<open>third\<close> power of the value
  drawn by \<^verbatim>\<open>next_double()\<close>: \<^verbatim>\<open>offset *= offset * offset * offset_sign\<close> multiplies
  the offset by its square and the sign. The sign is \<open>-1\<close> or \<open>1\<close>, and the displacement is
  \<open>10 * dx + 3 * offset\<close> and \<open>10 * dy + 3 * offset\<close> with the same offset on both axes, \<open>dx\<close>
  and \<open>dy\<close> being the velocity relative to the plate's own.
\<close>

theorem subduction_perturbation_cubic:
  "subduction_offset rd rn = offset_sign rn * rd ^ 3 \<and>
   (offset_sign rn = - 1 \<or> offset_sign rn = 1) \<and>
   subduction_displacement mv dx dy rd rn =
     (10 * (dx - mv_velocityOnX mv (0 < mv_dot mv dx dy)) + 3 * subduction_offset rd rn,
      10 * (dy - mv_velocityOnY mv (0 < mv_dot mv dx dy)) + 3 * subduction_offset rd rn)"
  using offset_sign_cases [of rn]
  by (simp add: subduction_offset_def subduction_displacement_def Let_def power3_eq_cube)

text \<open>Claim C7 as stated fails: for the draw \<open>1/2\<close> the perturbation is \<open>1/8\<close>, which is
  the fourth power of \<open>1/2\<close> under neither sign.\<close>

theorem subduction_perturbation_not_fourth_power:
  "\<not> (subduction_offset (1 / 2) 1 = 1 * (1 / 2) ^ 4 \<or>
      subduction_offset (1 / 2) 1 = - 1 * (1 / 2) ^ 4)"
  by (simp add: subduction_offset_def offset_sign_def power4_eq_xxxx)

subsection \<open>The deposit\<close>









text \<open>Evaluations on the example plate, for the instances below.\<close>

lemma getMapIndex_S1_33: "getMapIndex bounds_S1 3 3 = Some (4, 1, 1)"
  by (simp add: getMapIndex_def bounds_S1_def world10_def leftAsUint_def topAsUint_def
      f2n_def Let_def)










section \<open>The reframe of setCrust\<close>

subsection \<open>Copying the old grid\<close>

lemma memcpy_Suc:
  "memcpy dst di src si (Suc n) = (memcpy dst di src si n)[di + n := src ! (si + n)]"
  by (simp add: memcpy_def)

lemma length_memcpy [simp]: "length (memcpy dst di src si n) = length dst"
  by (induction n) (simp_all add: memcpy_Suc, simp add: memcpy_def)

lemma nth_memcpy:
  "k < length dst \<Longrightarrow>
   memcpy dst di src si n ! k =
     (if di \<le> k \<and> k < di + n then src ! (si + (k - di)) else dst ! k)"
proof (induction n)
  case 0
  then show ?case by (auto simp: memcpy_def)
next
  case (Suc n)
  show ?case
  proof (cases "k = di + n")
    case True
    then show ?thesis using Suc.prems by (simp add: memcpy_Suc)
  next
    case False
    then show ?thesis using Suc by (auto simp: memcpy_Suc nth_list_update less_Suc_eq)
  qed
qed

lemma copy_rows_Suc:
  "copy_rows tmp src ow (Suc oh) nw dl dt =
     memcpy (copy_rows tmp src ow oh nw dl dt) ((dt + oh) * nw + dl) src (oh * ow) ow"
  by (simp add: copy_rows_def)

lemma length_copy_rows [simp]: "length (copy_rows tmp src ow oh nw dl dt) = length tmp"
  by (induction oh) (simp_all add: copy_rows_Suc, simp add: copy_rows_def)

lemma row_range_iff:
  fixes k :: nat
  assumes "dl + ow \<le> nw"
  shows "(r * nw + dl \<le> k \<and> k < r * nw + dl + ow) \<longleftrightarrow>
         (k div nw = r \<and> dl \<le> k mod nw \<and> k mod nw < dl + ow)"
proof
  assume a: "r * nw + dl \<le> k \<and> k < r * nw + dl + ow"
  define q where "q = k - r * nw"
  have k: "k = q + r * nw" and q: "dl \<le> q" "q < dl + ow" using a by (auto simp: q_def)
  then have "q < nw" using assms by simp
  then show "k div nw = r \<and> dl \<le> k mod nw \<and> k mod nw < dl + ow"
    using q by (simp add: k)
next
  assume a: "k div nw = r \<and> dl \<le> k mod nw \<and> k mod nw < dl + ow"
  have "k = (k div nw) * nw + k mod nw" by simp
  then have "k = r * nw + k mod nw" using a by simp
  then show "r * nw + dl \<le> k \<and> k < r * nw + dl + ow" using a by linarith
qed

lemma nth_copy_rows:
  assumes "k < length tmp" and "dl + ow \<le> nw"
  shows "copy_rows tmp src ow oh nw dl dt ! k =
     (if dt \<le> k div nw \<and> k div nw < dt + oh \<and> dl \<le> k mod nw \<and> k mod nw < dl + ow
      then src ! ((k div nw - dt) * ow + (k mod nw - dl)) else tmp ! k)"
proof (induction oh)
  case 0
  then show ?case by (auto simp: copy_rows_def)
next
  case (Suc oh)
  have len: "k < length (copy_rows tmp src ow oh nw dl dt)" using assms by simp
  show ?case
  proof (cases "k div nw = dt + oh \<and> dl \<le> k mod nw \<and> k mod nw < dl + ow")
    case True
    then have rng: "(dt + oh) * nw + dl \<le> k \<and> k < (dt + oh) * nw + dl + ow"
      using row_range_iff [OF assms(2), of "dt + oh" k] by simp
    have "k = (k div nw) * nw + k mod nw" by simp
    then have "k - ((dt + oh) * nw + dl) = k mod nw - dl" using True
      by (metis add_diff_cancel_left' diff_diff_left)
    then show ?thesis
      using True rng by (simp add: copy_rows_Suc nth_memcpy [OF len] add.commute)
  next
    case False
    then have rng: "\<not> ((dt + oh) * nw + dl \<le> k \<and> k < (dt + oh) * nw + dl + ow)"
      using row_range_iff [OF assms(2), of "dt + oh" k] by simp
    have "copy_rows tmp src ow (Suc oh) nw dl dt ! k = copy_rows tmp src ow oh nw dl dt ! k"
      using rng by (auto simp: copy_rows_Suc nth_memcpy [OF len])
    also have "\<dots> = (if dt \<le> k div nw \<and> k div nw < dt + oh \<and> dl \<le> k mod nw \<and> k mod nw < dl + ow
      then src ! ((k div nw - dt) * ow + (k mod nw - dl)) else tmp ! k)" by (rule Suc.IH)
    finally show ?thesis using False by (auto simp: less_Suc_eq)
  qed
qed

subsection \<open>Local coordinates\<close>

lemma leftAsUint_less:
  assumes "bounds_wf b"
  shows "leftAsUint b < wd_width (b_world b)" and "topAsUint b < wd_height (b_world b)"
proof -
  have "\<lfloor>b_x b\<rfloor> < int (wd_width (b_world b))"
    using assms by (simp add: bounds_wf_def floor_less_iff)
  moreover have "0 \<le> \<lfloor>b_x b\<rfloor>" using assms by (simp add: bounds_wf_def)
  ultimately show "leftAsUint b < wd_width (b_world b)"
    by (simp add: leftAsUint_def f2n_def nat_less_iff)
  have "\<lfloor>b_y b\<rfloor> < int (wd_height (b_world b))"
    using assms by (simp add: bounds_wf_def floor_less_iff)
  moreover have "0 \<le> \<lfloor>b_y b\<rfloor>" using assms by (simp add: bounds_wf_def)
  ultimately show "topAsUint b < wd_height (b_world b)"
    by (simp add: topAsUint_def f2n_def nat_less_iff)
qed

lemma axis_local:
  assumes "0 < W" and "ilft < W"
  shows "(if px mod W < ilft then px mod W + W else px mod W) - ilft = local_coord W ilft px"
    and "((ilft \<le> px mod W \<and> px mod W < ilft + w) \<or>
          (ilft \<le> px mod W + W \<and> px mod W + W < ilft + w)) \<longleftrightarrow> local_coord W ilft px < w"
proof -
  have x: "px mod W < W" using assms by simp
  show "(if px mod W < ilft then px mod W + W else px mod W) - ilft = local_coord W ilft px"
  proof (cases "px mod W < ilft")
    case True
    then have "px mod W + W - ilft < W" using assms by linarith
    then show ?thesis using True by (simp add: local_coord_def)
  next
    case False
    then have "(px mod W + W - ilft) mod W = ((px mod W - ilft) + W) mod W" by simp
    also have "\<dots> = (px mod W - ilft) mod W" by simp
    also have "\<dots> = px mod W - ilft" using x by simp
    finally show ?thesis using False by (simp add: local_coord_def)
  qed
  then have eq: "local_coord W ilft px = (if px mod W < ilft then px mod W + W else px mod W) - ilft"
    by simp
  show "((ilft \<le> px mod W \<and> px mod W < ilft + w) \<or>
          (ilft \<le> px mod W + W \<and> px mod W + W < ilft + w)) \<longleftrightarrow> local_coord W ilft px < w"
    unfolding eq using x assms by (cases "px mod W < ilft") auto
qed

lemma getMapIndex_wf:
  assumes "bounds_wf b"
  shows "getMapIndex b px py =
    (if local_coord (wd_width (b_world b)) (leftAsUint b) px < b_width b \<and>
        local_coord (wd_height (b_world b)) (topAsUint b) py < b_height b
     then Some (local_coord (wd_height (b_world b)) (topAsUint b) py * b_width b +
                  local_coord (wd_width (b_world b)) (leftAsUint b) px,
                local_coord (wd_width (b_world b)) (leftAsUint b) px,
                local_coord (wd_height (b_world b)) (topAsUint b) py)
     else None)"
proof -
  have W: "0 < wd_width (b_world b)" and H: "0 < wd_height (b_world b)"
    using assms by (simp_all add: bounds_wf_def)
  note l = leftAsUint_less [OF assms]
  show ?thesis
    unfolding getMapIndex_def Let_def
      axis_local(1) [OF W l(1)] axis_local(2) [OF W l(1)]
      axis_local(1) [OF H l(2)] axis_local(2) [OF H l(2)]
    by simp
qed

lemma local_coord_int:
  assumes "0 < W" and "b < W"
  shows "int (local_coord W b px) = (int px - int b) mod int W"
proof -
  have "int (local_coord W b px) = (int (px mod W) + int W - int b) mod int W"
    using assms by (simp add: local_coord_def zmod_int of_nat_diff)
  also have "\<dots> = (int px mod int W - int b + int W) mod int W"
    by (simp add: zmod_int algebra_simps)
  also have "\<dots> = (int px mod int W - int b) mod int W" by simp
  also have "\<dots> = (int px - int b) mod int W" by (simp add: mod_diff_left_eq)
  finally show ?thesis .
qed

lemma wrap_coord_range:
  assumes "0 < W"
  shows "0 \<le> wrap_coord v W" and "wrap_coord v W < real W"
proof -
  have W: "0 < real W" using assms by simp
  have "real W * of_int \<lfloor>v / real W\<rfloor> \<le> real W * (v / real W)"
    by (intro mult_left_mono) simp_all
  also have "\<dots> = v" using W by simp
  finally have "real W * of_int \<lfloor>v / real W\<rfloor> \<le> v" .
  then show "0 \<le> wrap_coord v W" by (simp add: wrap_coord_def)
  have "v / real W < of_int \<lfloor>v / real W\<rfloor> + 1" by linarith
  then have "(v / real W) * real W < (of_int \<lfloor>v / real W\<rfloor> + 1) * real W"
    using W by (rule mult_strict_right_mono)
  moreover have "(v / real W) * real W = v" using W by simp
  ultimately have "v < (of_int \<lfloor>v / real W\<rfloor> + 1) * real W" by simp
  then show "wrap_coord v W < real W" by (simp add: wrap_coord_def algebra_simps)
qed

lemma floor_wrap_coord:
  assumes "0 < W"
  shows "\<lfloor>wrap_coord v W\<rfloor> = \<lfloor>v\<rfloor> mod int W"
proof -
  have "\<lfloor>v / real W\<rfloor> = \<lfloor>v\<rfloor> div int W"
    using floor_divide_real_eq_div [of "int W" v] by simp
  then have "wrap_coord v W = v - of_int (int W * (\<lfloor>v\<rfloor> div int W))"
    by (simp add: wrap_coord_def)
  then have "\<lfloor>wrap_coord v W\<rfloor> = \<lfloor>v\<rfloor> - int W * (\<lfloor>v\<rfloor> div int W)"
    by (simp only: floor_diff_of_int)
  then show ?thesis by (simp add: minus_mult_div_eq_mod)
qed

lemma f2n_wrap_shift:
  assumes "0 < W" and "0 \<le> v"
  shows "f2n (wrap_coord (v + - 1 * real d) W) = nat ((int (f2n v) - int d) mod int W)"
proof -
  have "\<lfloor>v + - 1 * real d\<rfloor> = \<lfloor>v\<rfloor> - int d"
    using floor_diff_of_int [of v "int d"] by simp
  moreover have "int (f2n v) = \<lfloor>v\<rfloor>" using assms by (simp add: f2n_def)
  ultimately show ?thesis
    by (simp add: f2n_def floor_wrap_coord [OF assms(1)])
qed

lemma bounds_wf_shift_grow:
  assumes "bounds_wf b"
  shows "bounds_wf (grow (shift b dx dy) dw dh)"
  using assms wrap_coord_range
  by (simp add: bounds_wf_def grow_def shift_def)

lemma axis_fresh:
  assumes "0 < W" and "ilft < W"
    and "local_coord W (nat ((int ilft - int d) mod int W)) px = d + i"
  shows "local_coord W ilft px \<le> i"
proof -
  let ?l' = "nat ((int ilft - int d) mod int W)"
  have W: "0 < int W" using assms by simp
  have l'W: "?l' < W" using W by (simp add: nat_less_iff)
  have il': "int ?l' = (int ilft - int d) mod int W" using W by simp
  have "int d + int i = (int px - int ?l') mod int W"
    using local_coord_int [OF assms(1) l'W, of px] assms(3) by simp
  also have "\<dots> = (int px - int ilft + int d) mod int W"
    unfolding il' by (simp add: mod_diff_right_eq algebra_simps)
  finally have e: "(int px - int ilft + int d) mod int W = int d + int i" by simp
  have "(int px - int ilft) mod int W = ((int px - int ilft + int d) - int d) mod int W"
    by simp
  also have "\<dots> = ((int px - int ilft + int d) mod int W - int d) mod int W"
    by (simp only: mod_diff_left_eq)
  also have "\<dots> = int i mod int W" by (simp add: e)
  finally have "int (local_coord W ilft px) = int i mod int W"
    using local_coord_int [OF assms(1) assms(2), of px] by simp
  moreover have "int i mod int W \<le> int i" using W by (simp add: zmod_le_nonneg_dividend)
  ultimately show ?thesis by linarith
qed

subsection \<open>The enlarged frame\<close>

lemma neg_bool_and: "x AND neg_bool c = (if c then x else 0)"
  by (simp add: neg_bool_def)

lemma round8_0: "round8 0 = 0"
  by (simp add: round8_def)

lemma mask_pair:
  "round8 (l AND neg_bool (l < r) AND neg_bool c1) = 0 \<or>
   round8 (r AND neg_bool (r \<le> l) AND neg_bool c2) = 0"
  by (cases "l < r") (auto simp: neg_bool_and round8_0 not_less)

lemma growth_exclusive:
  assumes "growth b wd x y = (dl, dr, dt, db)"
  shows "(dl = 0 \<or> dr = 0) \<and> (dt = 0 \<or> db = 0)"
proof -
  let ?ilft = "of_nat (leftAsUint b) :: u32"
  let ?itop = "of_nat (topAsUint b) :: u32"
  let ?W = "of_nat (wd_width wd) :: u32"
  let ?H = "of_nat (wd_height wd) :: u32"
  let ?lft = "?ilft - of_nat x"
  let ?rgt = "(?W AND neg_bool (of_nat x < ?ilft)) + of_nat x - of_nat (rightAsUintNonInclusive b)"
  let ?top = "?itop - of_nat y"
  let ?btm = "(?H AND neg_bool (of_nat y < ?itop)) + of_nat y - of_nat (bottomAsUintNonInclusive b)"
  have h: "round8 (?lft AND neg_bool (?lft < ?rgt) AND neg_bool (?lft < ?W)) = 0 \<or>
           round8 (?rgt AND neg_bool (?rgt \<le> ?lft) AND neg_bool (?rgt < ?W)) = 0"
    by (rule mask_pair)
  have v: "round8 (?top AND neg_bool (?top < ?btm) AND neg_bool (?top < ?H)) = 0 \<or>
           round8 (?btm AND neg_bool (?btm \<le> ?top) AND neg_bool (?btm < ?H)) = 0"
    by (rule mask_pair)
  have "dl = 0 \<or> dr = 0"
    using assms h unfolding growth_def Let_def by (cases "dl = 0") (auto split: if_splits)
  moreover have "dt = 0 \<or> db = 0"
    using assms v unfolding growth_def Let_def by (cases "dt = 0") (auto split: if_splits)
  ultimately show ?thesis ..
qed

lemma unat_add_exclusive:
  fixes a b :: u32
  shows "a = 0 \<or> b = 0 \<Longrightarrow> unat (a + b) = unat a + unat b"
  by auto

lemma getMapIndex_mod:
  "getMapIndex b (x mod wd_width (b_world b)) (y mod wd_height (b_world b)) = getMapIndex b x y"
  by (simp add: getMapIndex_def)

lemma reframed_fields:
  "p_bounds (reframed p dl dr dt db) =
     grow (shift (p_bounds p) (- 1 * real (unat dl)) (- 1 * real (unat dt)))
       (unat (dl + dr)) (unat (dt + db))"
  "p_worldDimension (reframed p dl dr dt db) = p_worldDimension p"
  "p_mass (reframed p dl dr dt db) = p_mass p"
  "p_movement (reframed p dl dr dt db) = p_movement p"
  "seg_data (p_segments (reframed p dl dr dt db)) =
     map (sd_shift (unat dl) (unat dt)) (seg_data (p_segments p))"
  "length (p_map (reframed p dl dr dt db)) = area (p_bounds (reframed p dl dr dt db))"
  "length (p_age_map (reframed p dl dr dt db)) = area (p_bounds (reframed p dl dr dt db))"
  "length (seg_ids (p_segments (reframed p dl dr dt db))) = area (p_bounds (reframed p dl dr dt db))"
  by (simp_all add: reframed_def Let_def segments_shift_def reassign_def)

lemma reframed_bounds_fields:
  "b_world (p_bounds (reframed p dl dr dt db)) = b_world (p_bounds p)"
  "b_width (p_bounds (reframed p dl dr dt db)) = b_width (p_bounds p) + unat (dl + dr)"
  "b_height (p_bounds (reframed p dl dr dt db)) = b_height (p_bounds p) + unat (dt + db)"
  by (simp_all add: reframed_fields grow_def shift_def)

lemma shift_grow_corner:
  assumes "bounds_wf b"
  shows "leftAsUint (grow (shift b (- 1 * real d) (- 1 * real e)) dw dh) =
           nat ((int (leftAsUint b) - int d) mod int (wd_width (b_world b)))"
    and "topAsUint (grow (shift b (- 1 * real d) (- 1 * real e)) dw dh) =
           nat ((int (topAsUint b) - int e) mod int (wd_height (b_world b)))"
  using assms
  by (simp_all add: grow_def shift_def leftAsUint_def topAsUint_def
      f2n_wrap_shift [simplified] bounds_wf_def)

lemma reframed_corner:
  assumes "bounds_wf (p_bounds p)"
  shows "leftAsUint (p_bounds (reframed p dl dr dt db)) =
           nat ((int (leftAsUint (p_bounds p)) - int (unat dl)) mod int (wd_width (b_world (p_bounds p))))"
    and "topAsUint (p_bounds (reframed p dl dr dt db)) =
           nat ((int (topAsUint (p_bounds p)) - int (unat dt)) mod int (wd_height (b_world (p_bounds p))))"
  unfolding reframed_fields(1) by (rule shift_grow_corner [OF assms])+

lemma plate_wf_reframed:
  assumes "plate_wf p"
  shows "plate_wf (reframed p dl dr dt db)"
proof -
  have "bounds_wf (p_bounds (reframed p dl dr dt db))"
    using assms unfolding reframed_fields plate_wf_def by (intro bounds_wf_shift_grow) simp
  moreover have "b_world (p_bounds (reframed p dl dr dt db)) = p_worldDimension (reframed p dl dr dt db)"
    using assms by (simp add: reframed_bounds_fields reframed_fields(2) plate_wf_def)
  ultimately show ?thesis
    by (simp add: plate_wf_def reframed_fields(6,7,8))
qed

lemma reframed_nth:
  assumes "k < area (p_bounds (reframed p dl dr dt db))"
    and "dl = 0 \<or> dr = 0"
  shows "p_map (reframed p dl dr dt db) ! k =
     (if in_old_frame (b_width (p_bounds p)) (b_height (p_bounds p))
           (b_width (p_bounds (reframed p dl dr dt db))) (unat dl) (unat dt) k
      then p_map p ! ((k div b_width (p_bounds (reframed p dl dr dt db)) - unat dt) * b_width (p_bounds p)
                       + (k mod b_width (p_bounds (reframed p dl dr dt db)) - unat dl))
      else 0)"
    and "p_age_map (reframed p dl dr dt db) ! k =
     (if in_old_frame (b_width (p_bounds p)) (b_height (p_bounds p))
           (b_width (p_bounds (reframed p dl dr dt db))) (unat dl) (unat dt) k
      then p_age_map p ! ((k div b_width (p_bounds (reframed p dl dr dt db)) - unat dt) * b_width (p_bounds p)
                       + (k mod b_width (p_bounds (reframed p dl dr dt db)) - unat dl))
      else 0)"
    and "seg_ids (p_segments (reframed p dl dr dt db)) ! k =
     (if in_old_frame (b_width (p_bounds p)) (b_height (p_bounds p))
           (b_width (p_bounds (reframed p dl dr dt db))) (unat dl) (unat dt) k
      then seg_ids (p_segments p) ! ((k div b_width (p_bounds (reframed p dl dr dt db)) - unat dt) * b_width (p_bounds p)
                       + (k mod b_width (p_bounds (reframed p dl dr dt db)) - unat dl))
      else unassigned)"
proof -
  let ?b' = "p_bounds (reframed p dl dr dt db)"
  have w: "unat dl + b_width (p_bounds p) \<le> b_width ?b'"
    using unat_add_exclusive [OF assms(2)] by (simp add: reframed_bounds_fields)
  have b': "?b' = grow (shift (p_bounds p) (- 1 * real (unat dl)) (- 1 * real (unat dt)))
       (unat (dl + dr)) (unat (dt + db))" by (rule reframed_fields)
  have m: "p_map (reframed p dl dr dt db) =
     copy_rows (replicate (area ?b') 0) (p_map p) (b_width (p_bounds p)) (b_height (p_bounds p))
       (b_width ?b') (unat dl) (unat dt)"
    unfolding b' by (simp add: reframed_def Let_def)
  have a: "p_age_map (reframed p dl dr dt db) =
     copy_rows (replicate (area ?b') 0) (p_age_map p) (b_width (p_bounds p)) (b_height (p_bounds p))
       (b_width ?b') (unat dl) (unat dt)"
    unfolding b' by (simp add: reframed_def Let_def)
  have s: "seg_ids (p_segments (reframed p dl dr dt db)) =
     copy_rows (replicate (area ?b') unassigned) (seg_ids (p_segments p))
       (b_width (p_bounds p)) (b_height (p_bounds p)) (b_width ?b') (unat dl) (unat dt)"
    unfolding b' by (simp add: reframed_def Let_def segments_shift_def reassign_def)
  have k: "k < length (replicate (area ?b') (0::float32))"
      "k < length (replicate (area ?b') (0::u32))"
      "k < length (replicate (area ?b') unassigned)"
    using assms(1) by simp_all
  show "p_map (reframed p dl dr dt db) ! k =
     (if in_old_frame (b_width (p_bounds p)) (b_height (p_bounds p))
           (b_width ?b') (unat dl) (unat dt) k
      then p_map p ! ((k div b_width ?b' - unat dt) * b_width (p_bounds p)
                       + (k mod b_width ?b' - unat dl))
      else 0)"
    unfolding m in_old_frame_def using assms(1) w
    by (simp add: nth_copy_rows [OF k(1)])
  show "p_age_map (reframed p dl dr dt db) ! k =
     (if in_old_frame (b_width (p_bounds p)) (b_height (p_bounds p))
           (b_width ?b') (unat dl) (unat dt) k
      then p_age_map p ! ((k div b_width ?b' - unat dt) * b_width (p_bounds p)
                       + (k mod b_width ?b' - unat dl))
      else 0)"
    unfolding a in_old_frame_def using assms(1) w
    by (simp add: nth_copy_rows [OF k(2)])
  show "seg_ids (p_segments (reframed p dl dr dt db)) ! k =
     (if in_old_frame (b_width (p_bounds p)) (b_height (p_bounds p))
           (b_width ?b') (unat dl) (unat dt) k
      then seg_ids (p_segments p) ! ((k div b_width ?b' - unat dt) * b_width (p_bounds p)
                       + (k mod b_width ?b' - unat dl))
      else unassigned)"
    unfolding s in_old_frame_def using assms(1) w
    by (simp add: nth_copy_rows [OF k(3)])
qed

lemma getMapIndex_SomeD:
  assumes "bounds_wf b" and "getMapIndex b px py = Some (i, lx, ly)"
  shows "lx = local_coord (wd_width (b_world b)) (leftAsUint b) px"
    and "ly = local_coord (wd_height (b_world b)) (topAsUint b) py"
    and "lx < b_width b" and "ly < b_height b" and "i = ly * b_width b + lx"
    and "i < area b"
proof -
  have *: "lx = local_coord (wd_width (b_world b)) (leftAsUint b) px \<and>
        ly = local_coord (wd_height (b_world b)) (topAsUint b) py \<and>
        lx < b_width b \<and> ly < b_height b \<and> i = ly * b_width b + lx"
    using assms(2) unfolding getMapIndex_wf [OF assms(1)] by (auto split: if_splits)
  then show "lx = local_coord (wd_width (b_world b)) (leftAsUint b) px"
    and "ly = local_coord (wd_height (b_world b)) (topAsUint b) py"
    and "lx < b_width b" and "ly < b_height b" and "i = ly * b_width b + lx"
    by simp_all
  have "ly * b_width b + lx < Suc ly * b_width b" using * by simp
  also have "\<dots> \<le> b_height b * b_width b"
    using * by (intro mult_le_mono1) simp
  finally show "i < area b" using * by (simp add: area_def mult.commute)
qed

lemma getMapIndex_NoneD:
  assumes "bounds_wf b" and "getMapIndex b px py = None"
  shows "\<not> (local_coord (wd_width (b_world b)) (leftAsUint b) px < b_width b \<and>
            local_coord (wd_height (b_world b)) (topAsUint b) py < b_height b)"
  using assms(2) unfolding getMapIndex_wf [OF assms(1)] by (auto split: if_splits)

text \<open>The cell a reframe was made for is not a copy of an old cell.\<close>

lemma reframed_target_fresh:
  assumes wf: "plate_wf p"
    and out: "getMapIndex (p_bounds p) x y = None"
    and tgt: "getMapIndex (p_bounds (reframed p dl dr dt db)) x y = Some (i, lx, ly)"
    and ex: "dl = 0 \<or> dr = 0"
  shows "\<not> in_old_frame (b_width (p_bounds p)) (b_height (p_bounds p))
            (b_width (p_bounds (reframed p dl dr dt db))) (unat dl) (unat dt) i"
proof
  let ?b = "p_bounds p" and ?b' = "p_bounds (reframed p dl dr dt db)"
  let ?W = "wd_width (b_world ?b)" and ?H = "wd_height (b_world ?b)"
  assume a: "in_old_frame (b_width ?b) (b_height ?b) (b_width ?b') (unat dl) (unat dt) i"
  have bwf: "bounds_wf ?b" using wf by (simp add: plate_wf_def)
  have bwf': "bounds_wf ?b'" using plate_wf_reframed [OF wf] by (simp add: plate_wf_def)
  have W: "0 < ?W" and H: "0 < ?H" using bwf by (simp_all add: bounds_wf_def)
  note l = leftAsUint_less [OF bwf]
  note t = getMapIndex_SomeD [OF bwf' tgt]
  have "i div b_width ?b' = ly" and "i mod b_width ?b' = lx"
    using t(3) t(5) by simp_all
  then have lx: "unat dl \<le> lx" "lx < unat dl + b_width ?b"
    and ly: "unat dt \<le> ly" "ly < unat dt + b_height ?b"
    using a by (simp_all add: in_old_frame_def)
  have "local_coord ?W (nat ((int (leftAsUint ?b) - int (unat dl)) mod int ?W)) x
          = unat dl + (lx - unat dl)"
    using t(1) lx(1) by (simp add: reframed_corner [OF bwf] reframed_bounds_fields)
  from axis_fresh [OF W l(1) this] have 1: "local_coord ?W (leftAsUint ?b) x < b_width ?b"
    using lx by linarith
  have "local_coord ?H (nat ((int (topAsUint ?b) - int (unat dt)) mod int ?H)) y
          = unat dt + (ly - unat dt)"
    using t(2) ly(1) by (simp add: reframed_corner [OF bwf] reframed_bounds_fields)
  from axis_fresh [OF H l(2) this] have 2: "local_coord ?H (topAsUint ?b) y < b_height ?b"
    using ly by linarith
  show False using getMapIndex_NoneD [OF bwf out] 1 2 by simp
qed

lemma setCrust_index_cases:
  assumes "setCrust_index p x y z = Inr (p1, i)"
  shows "(\<exists>lx ly. getMapIndex (p_bounds p) x y = Some (i, lx, ly) \<and> p1 = p) \<or>
         (getMapIndex (p_bounds p) x y = None \<and> 0 < z \<and>
          (\<exists>dl dr dt db lx ly.
             growth (p_bounds p) (p_worldDimension p)
               (x mod wd_width (p_worldDimension p)) (y mod wd_height (p_worldDimension p))
               = (dl, dr, dt, db) \<and>
             p1 = reframed p dl dr dt db \<and>
             getMapIndex (p_bounds p1) (x mod wd_width (p_worldDimension p))
               (y mod wd_height (p_worldDimension p)) = Some (i, lx, ly) \<and>
             i < area (p_bounds p1)))"
proof (cases "getMapIndex (p_bounds p) x y")
  case (Some r)
  then show ?thesis using assms by (cases r) (auto simp: setCrust_index_def)
next
  case None
  obtain dl dr dt db where g: "growth (p_bounds p) (p_worldDimension p)
               (x mod wd_width (p_worldDimension p)) (y mod wd_height (p_worldDimension p))
               = (dl, dr, dt, db)"
    by (metis prod_cases4)
  have r: "reframe p x y z = Inr (p1, i)" using assms None by (simp add: setCrust_index_def)
  then have z: "0 < z" by (auto simp: reframe_def split: if_splits)
  from r z g have "\<exists>lx ly. p1 = reframed p dl dr dt db \<and>
      getMapIndex (p_bounds (reframed p dl dr dt db)) (x mod wd_width (p_worldDimension p))
               (y mod wd_height (p_worldDimension p)) = Some (i, lx, ly) \<and>
      i < area (p_bounds (reframed p dl dr dt db))"
    by (auto simp: reframe_def normalize_def Let_def getValidMapIndex_def
        split: if_splits option.splits sum.splits)
  then show ?thesis using None z g by blast
qed

section \<open>setCrust\<close>

lemma setCrust_index_props:
  assumes wf: "plate_wf p" and si: "setCrust_index p x y z = Inr (p1, i)"
  shows "plate_wf p1"
    and "i < area (p_bounds p1)"
    and "\<exists>lx ly. getMapIndex (p_bounds p1) x y = Some (i, lx, ly)"
    and "p_map p1 ! i = getCrust p x y"
    and "p_age_map p1 ! i = getCrustTimestamp p x y"
    and "p_mass p1 = p_mass p"
proof -
  have bwf: "bounds_wf (p_bounds p)" and wd: "b_world (p_bounds p) = p_worldDimension p"
    using wf by (simp_all add: plate_wf_def)
  from setCrust_index_cases [OF si]
  have "plate_wf p1 \<and> i < area (p_bounds p1) \<and>
        (\<exists>lx ly. getMapIndex (p_bounds p1) x y = Some (i, lx, ly)) \<and>
        p_map p1 ! i = getCrust p x y \<and> p_age_map p1 ! i = getCrustTimestamp p x y \<and>
        p_mass p1 = p_mass p"
  proof (elim disjE exE conjE)
    fix lx ly
    assume g: "getMapIndex (p_bounds p) x y = Some (i, lx, ly)" and e: "p1 = p"
    show ?thesis
      using wf g getMapIndex_SomeD(6) [OF bwf g] by (simp add: e getCrust_def getCrustTimestamp_def)
  next
    fix dl dr dt db lx ly
    assume out: "getMapIndex (p_bounds p) x y = None"
      and g: "growth (p_bounds p) (p_worldDimension p) (x mod wd_width (p_worldDimension p))
                (y mod wd_height (p_worldDimension p)) = (dl, dr, dt, db)"
      and e: "p1 = reframed p dl dr dt db"
      and t: "getMapIndex (p_bounds p1) (x mod wd_width (p_worldDimension p))
                (y mod wd_height (p_worldDimension p)) = Some (i, lx, ly)"
      and a: "i < area (p_bounds p1)"
    have wd': "b_world (p_bounds p1) = p_worldDimension p"
      by (simp add: e reframed_bounds_fields wd)
    have t': "getMapIndex (p_bounds p1) x y = Some (i, lx, ly)"
      using t getMapIndex_mod [of "p_bounds p1" x y] by (simp add: wd')
    note ex = growth_exclusive [OF g]
    have fresh: "\<not> in_old_frame (b_width (p_bounds p)) (b_height (p_bounds p))
            (b_width (p_bounds (reframed p dl dr dt db))) (unat dl) (unat dt) i"
      using reframed_target_fresh [OF wf out _ conjunct1 [OF ex]] t' by (simp add: e)
    have "p_map p1 ! i = 0" and "p_age_map p1 ! i = 0"
      using reframed_nth(1,2) [OF _ conjunct1 [OF ex], of i p dt db] a fresh by (simp_all add: e)
    then show ?thesis
      using plate_wf_reframed [OF wf] a t' out
      by (simp add: e getCrust_def getCrustTimestamp_def reframed_fields)
  qed
  then show "plate_wf p1"
    and "i < area (p_bounds p1)"
    and "\<exists>lx ly. getMapIndex (p_bounds p1) x y = Some (i, lx, ly)"
    and "p_map p1 ! i = getCrust p x y"
    and "p_age_map p1 ! i = getCrustTimestamp p x y"
    and "p_mass p1 = p_mass p"
    by simp_all
qed

lemma setCrust_write_fields:
  "p_bounds (setCrust_write p i z t) = p_bounds p"
  "p_worldDimension (setCrust_write p i z t) = p_worldDimension p"
  "p_segments (setCrust_write p i z t) = p_segments p"
  "p_movement (setCrust_write p i z t) = p_movement p"
  "p_map (setCrust_write p i z t) = (p_map p)[i := z]"
  "p_mass (setCrust_write p i z t) = p_mass p - p_map p ! i + z"
  by (simp_all add: setCrust_write_def Let_def incMass_def)

lemma setCrust_write_age:
  "p_age_map (setCrust_write p i z t) =
     (p_age_map p)[i := (if 0 < z
        then (if 0 < p_map p ! i
              then f2u ((p_map p ! i * u2f (p_age_map p ! i) + z * u2f t) / (p_map p ! i + z))
              else t)
        else p_age_map p ! i)]"
  by (simp add: setCrust_write_def Let_def neg_bool_def)

lemma plate_wf_setCrust_write:
  "plate_wf p \<Longrightarrow> plate_wf (setCrust_write p i z t)"
  by (simp add: plate_wf_def setCrust_write_fields setCrust_write_age)

lemma setCrust_Inr:
  assumes "setCrust p x y z t = Inr p'"
  shows "\<exists>p1 i. setCrust_index p x y (max z 0) = Inr (p1, i) \<and>
           p' = setCrust_write p1 i (max z 0) t"
proof -
  have m: "(if z < 0 then 0 else z) = max z 0" by (auto simp: max_def)
  show ?thesis
    using assms unfolding setCrust_def Let_def m
    by (auto split: sum.splits)
qed




lemma plate_wf_S1: "plate_wf plate_S1"
  by (simp add: plate_wf_def bounds_wf_def plate_S1_def bounds_S1_def world10_def area_def)


text \<open>
  Claim C4. A successful call of \<open>setCrust\<close> at a cell outside the rectangle of a well-formed
  plate enlarges the frame by \<open>growth\<close>. In the plate \<open>p1\<close> the reframe builds, every cell that
  is not a copy of an old cell has height 0, age 0 and the sentinel as segment id. The old
  cell \<open>(c, r)\<close> is found at \<open>(dl + c, dt + r)\<close> of the new grids with its height, age and
  segment id, also after the call; every segment's box is shifted by \<open>(dl, dt)\<close>. The last
  lines of \<open>setCrust\<close> then write \<open>z\<close> and \<open>t\<close> to the target cell \<open>i\<close>, which is one of the new
  cells, and change no other cell.
\<close>

theorem setCrust_reframe_frame:
  assumes wf: "plate_wf p"
    and out: "getMapIndex (p_bounds p) x y = None"
    and ok: "setCrust p x y z t = Inr p'"
  shows "\<exists>dl dr dt db p1 i lx ly.
     growth (p_bounds p) (p_worldDimension p)
       (x mod wd_width (p_worldDimension p)) (y mod wd_height (p_worldDimension p))
       = (dl, dr, dt, db) \<and>
     setCrust_index p x y (max z 0) = Inr (p1, i) \<and>
     p' = setCrust_write p1 i (max z 0) t \<and>
     (\<forall>k < area (p_bounds p1).
        \<not> in_old_frame (b_width (p_bounds p)) (b_height (p_bounds p)) (b_width (p_bounds p1))
             (unat dl) (unat dt) k \<longrightarrow>
        p_map p1 ! k = 0 \<and> p_age_map p1 ! k = 0 \<and> seg_ids (p_segments p1) ! k = unassigned) \<and>
     p_bounds p' = grow (shift (p_bounds p) (- 1 * real (unat dl)) (- 1 * real (unat dt)))
                     (unat dl + unat dr) (unat dt + unat db) \<and>
     getMapIndex (p_bounds p') x y = Some (i, lx, ly) \<and>
     (\<forall>r < b_height (p_bounds p). \<forall>c < b_width (p_bounds p).
        p_map p' ! ((unat dt + r) * b_width (p_bounds p') + unat dl + c)
          = p_map p ! (r * b_width (p_bounds p) + c) \<and>
        p_age_map p' ! ((unat dt + r) * b_width (p_bounds p') + unat dl + c)
          = p_age_map p ! (r * b_width (p_bounds p) + c) \<and>
        seg_ids (p_segments p') ! ((unat dt + r) * b_width (p_bounds p') + unat dl + c)
          = seg_ids (p_segments p) ! (r * b_width (p_bounds p) + c)) \<and>
     seg_data (p_segments p') = map (sd_shift (unat dl) (unat dt)) (seg_data (p_segments p)) \<and>
     (\<forall>k < area (p_bounds p').
        \<not> in_old_frame (b_width (p_bounds p)) (b_height (p_bounds p)) (b_width (p_bounds p'))
             (unat dl) (unat dt) k \<longrightarrow>
        seg_ids (p_segments p') ! k = unassigned \<and>
        (if k = i then p_map p' ! k = z \<and> p_age_map p' ! k = t
         else p_map p' ! k = 0 \<and> p_age_map p' ! k = 0))"
proof -
  let ?W = "wd_width (p_worldDimension p)" and ?H = "wd_height (p_worldDimension p)"
  from setCrust_Inr [OF ok] obtain p1 i
    where si: "setCrust_index p x y (max z 0) = Inr (p1, i)"
      and p': "p' = setCrust_write p1 i (max z 0) t" by blast
  from setCrust_index_cases [OF si] out obtain dl dr dt db lx ly
    where z: "0 < max z 0"
      and g: "growth (p_bounds p) (p_worldDimension p) (x mod ?W) (y mod ?H) = (dl, dr, dt, db)"
      and p1: "p1 = reframed p dl dr dt db"
      and ia: "i < area (p_bounds p1)"
    by auto
  have zz: "max z 0 = z" "0 < z" using z by (simp_all add: max_def split: if_splits)
  note ex = growth_exclusive [OF g]
  note pr = setCrust_index_props [OF wf si]
  obtain lx' ly' where t': "getMapIndex (p_bounds p1) x y = Some (i, lx', ly')"
    using pr(3) by blast
  let ?w = "b_width (p_bounds p)" and ?h = "b_height (p_bounds p)"
  let ?w' = "b_width (p_bounds p1)" and ?h' = "b_height (p_bounds p1)"
  have w': "?w' = ?w + unat dl + unat dr" and h': "?h' = ?h + unat dt + unat db"
    using unat_add_exclusive [OF conjunct1 [OF ex]] unat_add_exclusive [OF conjunct2 [OF ex]]
    by (simp_all add: p1 reframed_bounds_fields)
  have bnd: "p_bounds p' = grow (shift (p_bounds p) (- 1 * real (unat dl)) (- 1 * real (unat dt)))
                     (unat dl + unat dr) (unat dt + unat db)"
    using unat_add_exclusive [OF conjunct1 [OF ex]] unat_add_exclusive [OF conjunct2 [OF ex]]
    by (simp add: p' setCrust_write_fields p1 reframed_fields(1))
  have fresh: "\<not> in_old_frame ?w ?h ?w' (unat dl) (unat dt) i"
    using reframed_target_fresh [OF wf out _ conjunct1 [OF ex]] t' by (simp add: p1)
  have len: "length (p_map p1) = area (p_bounds p1)" "length (p_age_map p1) = area (p_bounds p1)"
    using pr(1) by (simp_all add: plate_wf_def)
  have nth1: "\<And>k. k < area (p_bounds p1) \<Longrightarrow> k \<noteq> i \<Longrightarrow>
        p_map p' ! k = p_map p1 ! k \<and> p_age_map p' ! k = p_age_map p1 ! k"
    by (simp add: p' setCrust_write_fields setCrust_write_age)
  have ids: "seg_ids (p_segments p') = seg_ids (p_segments p1)"
    by (simp add: p' setCrust_write_fields)
  have old: "p_map p' ! ((unat dt + r) * b_width (p_bounds p') + unat dl + c)
          = p_map p ! (r * ?w + c) \<and>
        p_age_map p' ! ((unat dt + r) * b_width (p_bounds p') + unat dl + c)
          = p_age_map p ! (r * ?w + c) \<and>
        seg_ids (p_segments p') ! ((unat dt + r) * b_width (p_bounds p') + unat dl + c)
          = seg_ids (p_segments p) ! (r * ?w + c)"
    if r: "r < ?h" and c: "c < ?w" for r c
  proof -
    let ?k = "(unat dt + r) * ?w' + unat dl + c"
    have cw: "unat dl + c < ?w'" using c w' by simp
    have dv: "?k div ?w' = unat dt + r" and md: "?k mod ?w' = unat dl + c"
      using cw by (simp_all add: add.assoc)
    have "?k < Suc (unat dt + r) * ?w'" using cw by simp
    also have "\<dots> \<le> ?h' * ?w'" using r h' by (intro mult_le_mono1) simp
    finally have ka: "?k < area (p_bounds p1)" by (simp add: area_def mult.commute)
    have fr: "in_old_frame ?w ?h ?w' (unat dl) (unat dt) ?k"
      using r c by (simp add: in_old_frame_def dv md)
    then have ne: "?k \<noteq> i" using fresh by auto
    have b': "b_width (p_bounds p') = ?w'" by (simp add: p' setCrust_write_fields)
    show ?thesis
      unfolding b' ids
      using nth1 [OF ka ne] reframed_nth [OF _ conjunct1 [OF ex], of ?k p dt db] ka fr
      by (simp add: p1 [symmetric] dv md)
  qed
  have new: "seg_ids (p_segments p') ! k = unassigned \<and>
        (if k = i then p_map p' ! k = z \<and> p_age_map p' ! k = t
         else p_map p' ! k = 0 \<and> p_age_map p' ! k = 0)"
    if k: "k < area (p_bounds p')"
      and nf: "\<not> in_old_frame ?w ?h (b_width (p_bounds p')) (unat dl) (unat dt) k" for k
  proof -
    have b': "p_bounds p' = p_bounds p1" by (simp add: p' setCrust_write_fields)
    have k1: "k < area (p_bounds p1)" using k by (simp add: b')
    have nf1: "\<not> in_old_frame ?w ?h ?w' (unat dl) (unat dt) k" using nf by (simp add: b')
    have z1: "p_map p1 ! k = 0" "p_age_map p1 ! k = 0" "seg_ids (p_segments p1) ! k = unassigned"
      using reframed_nth [OF _ conjunct1 [OF ex], of k p dt db] k1 nf1 by (simp_all add: p1)
    show ?thesis
    proof (cases "k = i")
      case True
      then show ?thesis
        using z1 k1 len zz by (simp add: ids p' setCrust_write_fields setCrust_write_age)
    next
      case False
      then show ?thesis using nth1 [OF k1 False] z1 by (simp add: ids)
    qed
  qed
  have new1: "\<forall>k < area (p_bounds p1).
        \<not> in_old_frame ?w ?h ?w' (unat dl) (unat dt) k \<longrightarrow>
        p_map p1 ! k = 0 \<and> p_age_map p1 ! k = 0 \<and> seg_ids (p_segments p1) ! k = unassigned"
    using reframed_nth [OF _ conjunct1 [OF ex], of _ p dt db] by (simp add: p1)
  have tgt: "getMapIndex (p_bounds p') x y = Some (i, lx', ly')"
    using t' by (simp add: p' setCrust_write_fields)
  have sd: "seg_data (p_segments p') = map (sd_shift (unat dl) (unat dt)) (seg_data (p_segments p))"
    by (simp add: p' setCrust_write_fields p1 reframed_fields)
  show ?thesis
    using g si p' new1 bnd tgt old sd new by blast
qed

text \<open>Scenario S2: crust set at the cell \<open>(6, 3)\<close>, right of the example plate. The plate
  grows to the width of the world.\<close>

lemma growth_S1_63: "growth bounds_S1 world10 6 3 = (0, 7, 0, 0)"
  by code_simp

lemma getMapIndex_S1_63: "getMapIndex bounds_S1 6 3 = None"
  by (simp add: getMapIndex_def bounds_S1_def world10_def leftAsUint_def topAsUint_def
      f2n_def Let_def)

lemma bounds_S2:
  "grow (shift bounds_S1 (- 1 * real (unat (0::u32))) (- 1 * real (unat (0::u32))))
     (unat (0::u32) + unat (7::u32)) (unat (0::u32) + unat (0::u32))
   = \<lparr>b_world = world10, b_x = 2, b_y = 2, b_width = 10, b_height = 3\<rparr>"
  by (simp add: grow_def shift_def bounds_S1_def world10_def wrap_coord_def)

lemma getMapIndex_S2_63:
  "getMapIndex \<lparr>b_world = world10, b_x = 2, b_y = 2, b_width = 10, b_height = 3\<rparr> 6 3
     = Some (14, 4, 1)"
  by (simp add: getMapIndex_def world10_def leftAsUint_def topAsUint_def f2n_def Let_def)

lemma setCrust_S1_63:
  "setCrust plate_S1 6 3 (fl 2) 9 = Inr (setCrust_write (reframed plate_S1 0 7 0 0) 14 (fl 2) 9)"
proof -
  have b: "p_bounds (reframed plate_S1 0 7 0 0) =
      \<lparr>b_world = world10, b_x = 2, b_y = 2, b_width = 10, b_height = 3\<rparr>"
    using bounds_S2 by (simp add: reframed_fields plate_S1_def)
  have "reframe plate_S1 6 3 (fl 2) = Inr (reframed plate_S1 0 7 0 0, 14)"
    unfolding reframe_def
    by (simp add: normalize_def plate_S1_def [THEN arg_cong, of p_worldDimension]
        plate_S1_def [THEN arg_cong, of p_bounds] world10_def [THEN arg_cong, of wd_width]
        world10_def [THEN arg_cong, of wd_height] growth_S1_63 getValidMapIndex_def b
        getMapIndex_S2_63 area_def)
  then show ?thesis
    by (simp add: setCrust_def setCrust_index_def plate_S1_def [THEN arg_cong, of p_bounds]
        getMapIndex_S1_63)
qed

theorem setCrust_reframe_frame_witness:
  "\<exists>p'. setCrust plate_S1 6 3 (fl 2) 9 = Inr p' \<and>
         b_width (p_bounds p') = 10 \<and> b_height (p_bounds p') = 3 \<and>
         p_map p' ! 11 = 1 \<and> p_age_map p' ! 11 = 5 \<and>
         p_map p' ! 14 = fl 2 \<and> p_age_map p' ! 14 = 9 \<and>
         p_map p' ! 15 = 0 \<and> p_age_map p' ! 15 = 0 \<and>
         seg_ids (p_segments p') ! 15 = unassigned"
proof -
  define p' where "p' = setCrust_write (reframed plate_S1 0 7 0 0) 14 (fl 2) 9"
  have sc: "setCrust plate_S1 6 3 (fl 2) 9 = Inr p'"
    by (simp add: p'_def setCrust_S1_63)
  have out: "getMapIndex (p_bounds plate_S1) 6 3 = None"
    by (simp add: plate_S1_def getMapIndex_S1_63)
  have gr: "growth (p_bounds plate_S1) (p_worldDimension plate_S1)
       (6 mod wd_width (p_worldDimension plate_S1)) (3 mod wd_height (p_worldDimension plate_S1))
       = (0, 7, 0, 0)"
    by (simp add: plate_S1_def world10_def [THEN arg_cong, of wd_width]
        world10_def [THEN arg_cong, of wd_height] growth_S1_63)
  from setCrust_reframe_frame [OF plate_wf_S1 out sc] obtain dl dr dt db i lx ly where
    g: "growth (p_bounds plate_S1) (p_worldDimension plate_S1)
       (6 mod wd_width (p_worldDimension plate_S1)) (3 mod wd_height (p_worldDimension plate_S1))
       = (dl, dr, dt, db)"
    and bnd: "p_bounds p' = grow (shift (p_bounds plate_S1) (- 1 * real (unat dl)) (- 1 * real (unat dt)))
                     (unat dl + unat dr) (unat dt + unat db)"
    and tgt: "getMapIndex (p_bounds p') 6 3 = Some (i, lx, ly)"
    and old: "\<forall>r < b_height (p_bounds plate_S1). \<forall>c < b_width (p_bounds plate_S1).
        p_map p' ! ((unat dt + r) * b_width (p_bounds p') + unat dl + c)
          = p_map plate_S1 ! (r * b_width (p_bounds plate_S1) + c) \<and>
        p_age_map p' ! ((unat dt + r) * b_width (p_bounds p') + unat dl + c)
          = p_age_map plate_S1 ! (r * b_width (p_bounds plate_S1) + c) \<and>
        seg_ids (p_segments p') ! ((unat dt + r) * b_width (p_bounds p') + unat dl + c)
          = seg_ids (p_segments plate_S1) ! (r * b_width (p_bounds plate_S1) + c)"
    and new: "\<forall>k < area (p_bounds p').
        \<not> in_old_frame (b_width (p_bounds plate_S1)) (b_height (p_bounds plate_S1))
             (b_width (p_bounds p')) (unat dl) (unat dt) k \<longrightarrow>
        seg_ids (p_segments p') ! k = unassigned \<and>
        (if k = i then p_map p' ! k = fl 2 \<and> p_age_map p' ! k = 9
         else p_map p' ! k = 0 \<and> p_age_map p' ! k = 0)"
    by blast
  have d: "dl = 0" "dr = 7" "dt = 0" "db = 0" using g gr by simp_all
  have b: "p_bounds p' = \<lparr>b_world = world10, b_x = 2, b_y = 2, b_width = 10, b_height = 3\<rparr>"
    using bnd bounds_S2 by (simp add: d plate_S1_def)
  have i: "i = 14" using tgt by (simp add: b getMapIndex_S2_63)
  have s1: "b_height (p_bounds plate_S1) = 3" "b_width (p_bounds plate_S1) = 3"
    by (simp_all add: plate_S1_def bounds_S1_def)
  have "p_map p' ! 11 = p_map plate_S1 ! 4 \<and> p_age_map p' ! 11 = p_age_map plate_S1 ! 4"
    using old [rule_format, of 1 1] by (simp add: s1 b d)
  then have c11: "p_map p' ! 11 = 1 \<and> p_age_map p' ! 11 = 5"
    by (simp add: plate_S1_def)
  have c14: "p_map p' ! 14 = fl 2 \<and> p_age_map p' ! 14 = 9"
    using new [rule_format, of 14] by (simp add: s1 b d i area_def in_old_frame_def)
  have c15: "seg_ids (p_segments p') ! 15 = unassigned \<and> p_map p' ! 15 = 0 \<and> p_age_map p' ! 15 = 0"
    using new [rule_format, of 15] by (simp add: s1 b d i area_def in_old_frame_def)
  show ?thesis
    using sc b c11 c14 c15 by simp
qed

section \<open>Aggregation\<close>

subsection \<open>A second call\<close>

lemma aggregate_cell_source:
  assumes "aggregate_cell seg_id ac wx wy lx ly (a, p) xy = Inr (a', p')"
  shows "p_bounds a' = p_bounds a" and "p_segments a' = p_segments a"
    and "p_age_map a' = p_age_map a" and "p_worldDimension a' = p_worldDimension a"
  using assms
  by (auto simp: aggregate_cell_def Let_def split: if_splits sum.splits)

lemma aggregate_loop_source:
  assumes "aggregate_loop seg_id ac wx wy lx ly (a, p) cells = Inr (a', p')"
  shows "p_bounds a' = p_bounds a \<and> p_segments a' = p_segments a \<and>
         p_age_map a' = p_age_map a \<and> p_worldDimension a' = p_worldDimension a"
  using assms
proof (induction cells arbitrary: a p)
  case Nil
  then show ?case by simp
next
  case (Cons xy cells)
  then obtain a1 p1 where
    c: "aggregate_cell seg_id ac wx wy lx ly (a, p) xy = Inr (a1, p1)"
    and l: "aggregate_loop seg_id ac wx wy lx ly (a1, p1) cells = Inr (a', p')"
    by (auto split: sum.splits)
  show ?case
    using Cons.IH [OF l] aggregate_cell_source [OF c] by simp
qed

text \<open>
  Claim C5. After a call \<open>aggregateCrust a p wx wy\<close> that returned, the same call on the two
  plates as the first one left them returns exactly 0 and leaves both as they are: the
  source plate's rectangle and segment ids are untouched by the first call and the segment
  was marked non-existent, so the test for an empty segment ends the second call at once.
\<close>

theorem aggregateCrust_twice:
  assumes "aggregateCrust a p wx wy = Inr (delta, a', p')"
  shows "aggregateCrust a' p' wx wy = Inr (0, a', p')"
proof -
  from assms obtain i lx ly d where
    g: "getValidMapIndex (p_bounds a) wx wy = Inr (i, lx, ly)"
    and s: "segments_at (p_segments a) (seg_ids (p_segments a) ! i) = Inr d"
    by (auto simp: aggregateCrust_def Let_def split: sum.splits)
  let ?seg = "seg_ids (p_segments a) ! i"
  show ?thesis
  proof (cases "isEmpty d")
    case True
    then have "a' = a" "p' = p" using assms g s by (simp_all add: aggregateCrust_def)
    then show ?thesis using True g s by (simp add: aggregateCrust_def)
  next
    case False
    from assms g s False obtain ac a1 where
      l: "aggregate_loop ?seg ac (wx + wd_width (p_worldDimension a))
            (wy + wd_height (p_worldDimension a)) lx ly (a, p) (segment_cells d) = Inr (a1, p')"
      and a': "a' = a1\<lparr>p_segments := (p_segments a1)
                  \<lparr>seg_data := (seg_data (p_segments a1)) [?seg := markNonExistent d]\<rparr>\<rparr>"
      by (auto simp: aggregateCrust_def Let_def split: sum.splits)
    note src = aggregate_loop_source [OF l]
    have len: "?seg < length (seg_data (p_segments a))"
      using s by (simp add: segments_at_def split: if_splits)
    have b: "p_bounds a' = p_bounds a" and ids: "seg_ids (p_segments a') = seg_ids (p_segments a)"
      using src by (simp_all add: a')
    have "segments_at (p_segments a') ?seg = Inr (markNonExistent d)"
      using len src by (simp add: a' segments_at_def)
    moreover have "isEmpty (markNonExistent d)" by (simp add: isEmpty_def markNonExistent_def)
    ultimately show ?thesis
      using g by (simp add: aggregateCrust_def b ids)
  qed
qed

text \<open>Scenario S4: the continent of the example plate aggregated onto a plate of the same
  shape, which holds a unit of crust of its continent 0 at the collision point.\<close>

lemma getMapIndex_S1_wrapped: "getMapIndex bounds_S1 13 13 = Some (4, 1, 1)"
  by (simp add: getMapIndex_def bounds_S1_def world10_def leftAsUint_def topAsUint_def
      f2n_def Let_def)

lemma S4_fields:
  "p_bounds plate_S4 = bounds_S1" "p_worldDimension plate_S4 = world10"
  "p_map plate_S4 = [0, 0, 0, 0, 1, 0, 0, 0, 0]"
  "p_age_map plate_S4 = [0, 0, 0, 0, 5, 0, 0, 0, 0]"
  "p_mass plate_S4 = 1" "p_segments plate_S4 = continent_S4"
  by (simp_all add: plate_S4_def plate_S1_def)

lemma bounds_S1_fields:
  "b_width bounds_S1 = 3" "b_height bounds_S1 = 3" "b_world bounds_S1 = world10"
  by (simp_all add: bounds_S1_def)

lemma continent_S4_fields:
  "seg_ids continent_S4 ! 4 = 0"
  "seg_data continent_S4 = [\<lparr>sd_left = 1, sd_top = 1, sd_right = 1, sd_bottom = 1, sd_area = 1,
                   sd_collCount = 0, sd_exists = True\<rparr>]"
  by (simp_all add: continent_S4_def)

lemma addCrustByCollision_S4:
  "\<exists>p'. addCrustByCollision plate_S4 13 13 1 5 0 = Inr p'"
  by (simp add: addCrustByCollision_def setCrust_def setCrust_index_def getCrust_def
      S4_fields getMapIndex_S1_wrapped getValidMapIndex_def setCrust_write_fields
      segments_at_def setId_def continent_S4_fields)

lemma aggregateCrust_S4:
  "\<exists>a' p'. aggregateCrust plate_S4 plate_S4 3 3 = Inr (1, a', p')"
  using addCrustByCollision_S4
  by (auto simp add: aggregateCrust_def getValidMapIndex_def S4_fields getMapIndex_S1_33
      continent_S4_fields segments_at_def isEmpty_def selectCollisionSegment_def
      segment_cells_def world10_def aggregate_cell_def incMass_def Let_def
      bounds_S1_fields)

theorem aggregateCrust_twice_witness:
  "\<exists>a' p'. aggregateCrust plate_S4 plate_S4 3 3 = Inr (1, a', p') \<and>
           aggregateCrust a' p' 3 3 = Inr (0, a', p')"
  using aggregateCrust_S4 aggregateCrust_twice by blast

section \<open>River sources\<close>








end
